theory Spec2Isabelle
  imports Complex_Main "HOL-Library.Word" "HOL-Library.Multiset"
begin

section \<open>Data model\<close>

text \<open>
  A \<open>time.Time\<close> value is modelled by the instant it denotes (nanoseconds since the Unix
  epoch) together with the civil date it shows in its location. \<open>Before\<close> compares
  instants; \<open>Day\<close> is the day of the month, as in Go. Every \<open>time.Now()\<close> of the source is
  an argument of the function that calls it.
\<close>

record Time =
  unixNano :: int
  Year :: int
  Month :: nat
  MDay :: nat

definition Day :: "Time \<Rightarrow> nat" where
  "Day t = MDay t"

definition Before :: "Time \<Rightarrow> Time \<Rightarrow> bool" where
  "Before t u = (unixNano t < unixNano u)"

definition calendarDate :: "Time \<Rightarrow> int \<times> nat \<times> nat" where
  "calendarDate t = (Year t, Month t, MDay t)"

definition zeroTime :: Time where
  "zeroTime = \<lparr>unixNano = - 62135596800000000000, Year = 1, Month = 1, MDay = 1\<rparr>"

text \<open>
  Errors are values. The constructors follow the \<open>fmt.Errorf\<close> sites of keystore.go and
  of the rotator; a run-time panic of Go (an index out of range, an assignment into a nil
  map) is an error value too, so that it is a branch of the model.
\<close>

datatype error =
    ProviderNotFound string
  | KeyNotFound string string
  | Base64DecodeFailed
  | NewCipherFailed
  | NonceReadFailed
  | CiphertextTooShort
  | GcmOpenFailed
  | EncryptFailed error
  | RotatorProviderNotFound error
  | NoEnabledKeys string
  | KeySelectionFailed error
  | NoSuitableKey string
  | HealthCheckFailed error
  | UnhealthyNoFallback string
  | RetrieveKeyFailed error
  | NoKeysAvailable
  | AllKeysOverCostLimit
  | NoHealthyFallback
  | FallbackSelectionFailed
  | RetrieveFallbackKeyFailed error
  | PanicIndexOutOfRange nat nat
  | PanicNilMap

text \<open>config.go: \<open>APIKey\<close>, \<open>RotationConfig\<close>, \<open>ProviderConfig\<close>, \<open>Config\<close>.
  The run-time fields of \<open>APIKey\<close> carry the prefix \<open>k\<close>, since \<open>KeyUsage\<close> has fields of
  the same names. \<open>float64\<close> costs are real numbers (finite values, no rounding).\<close>

record APIKey =
  Key :: string
  Name :: string
  RateLimit :: int
  CostLimit :: real
  Enabled :: bool
  kLastUsed :: Time
  kUsageCount :: "64 word"
  kCostUsed :: real

record RotationConfig =
  Strategy :: string
  Interval :: string
  HealthCheck :: bool
  FallbackEnabled :: bool

record ProviderConfig =
  APIKeys :: "APIKey list"
  Rotation :: RotationConfig

record Config =
  Providers :: "string \<rightharpoonup> ProviderConfig"

definition RotationRoundRobin :: string where
  "RotationRoundRobin = ''round_robin''"

definition RotationLeastUsed :: string where
  "RotationLeastUsed = ''least_used''"

definition RotationCostOptimized :: string where
  "RotationCostOptimized = ''cost_optimized''"

definition RotationRandom :: string where
  "RotationRandom = ''random''"

definition RotationSingle :: string where
  "RotationSingle = ''single''"

definition IsValid :: "APIKey \<Rightarrow> bool" where
  "IsValid k = (Enabled k \<and> Key k \<noteq> [] \<and> Name k \<noteq> [])"

definition CanUse :: "APIKey \<Rightarrow> bool" where
  "CanUse k =
     (if \<not> IsValid k then False
      else if CostLimit k > 0 \<and> kCostUsed k \<ge> CostLimit k then False
      else True)"

definition GetEnabledKeys :: "ProviderConfig \<Rightarrow> APIKey list" where
  "GetEnabledKeys p = filter (\<lambda>key. IsValid key \<and> CanUse key) (APIKeys p)"

definition GetProvider :: "Config \<Rightarrow> string \<Rightarrow> error + ProviderConfig" where
  "GetProvider c name =
     (case Providers c name of
        None \<Rightarrow> Inl (ProviderNotFound name)
      | Some provider \<Rightarrow> Inr provider)"

section \<open>The key store (keystore.go)\<close>

record KeyUsage =
  LastUsed :: Time
  UsageCount :: "64 word"
  TokensUsed :: "64 word"
  CostUsed :: real
  DailyCost :: real
  ErrorCount :: "64 word"
  LastError :: string

text \<open>
  \<open>KeyEncryptor\<close> calls Go's crypto/aes, crypto/cipher, crypto/rand and encoding/base64,
  which are not part of the repository. The model takes that library as a value: whether
  \<open>aes.NewCipher\<close> and \<open>cipher.NewGCM\<close> accept a key, the nonce size of GCM, \<open>Seal\<close> and
  \<open>Open\<close> of the AEAD (key, nonce, text), and the two directions of base64. Byte slices
  are strings. An encryptor holds its key (the SHA-256 of the password) and the library.
\<close>

record goCrypto =
  newGCM :: "string \<Rightarrow> bool"
  gcmNonceSize :: nat
  gcmSeal :: "string \<Rightarrow> string \<Rightarrow> string \<Rightarrow> string"
  gcmOpen :: "string \<Rightarrow> string \<Rightarrow> string \<Rightarrow> string option"
  b64Encode :: "string \<Rightarrow> string"
  b64Decode :: "string \<Rightarrow> string option"

record KeyEncryptor =
  encKey :: string
  crypto :: goCrypto

text \<open>
  \<open>Encrypt\<close>: \<open>nonce\<close> is what \<open>io.ReadFull(rand.Reader, nonce)\<close> delivers, \<open>None\<close> when
  the read fails. \<open>gcm.Seal(nonce, nonce, plaintext, nil)\<close> appends the sealed text to
  the nonce.
\<close>

definition Encrypt :: "KeyEncryptor \<Rightarrow> string option \<Rightarrow> string \<Rightarrow> error + string" where
  "Encrypt e nonce plaintext =
     (if \<not> newGCM (crypto e) (encKey e) then Inl NewCipherFailed
      else (case nonce of
              None \<Rightarrow> Inl NonceReadFailed
            | Some n \<Rightarrow>
                Inr (b64Encode (crypto e) (n @ gcmSeal (crypto e) (encKey e) n plaintext))))"

definition Decrypt :: "KeyEncryptor \<Rightarrow> string \<Rightarrow> error + string" where
  "Decrypt e ciphertext =
     (case b64Decode (crypto e) ciphertext of
        None \<Rightarrow> Inl Base64DecodeFailed
      | Some d \<Rightarrow>
          (if \<not> newGCM (crypto e) (encKey e) then Inl NewCipherFailed
           else if length d < gcmNonceSize (crypto e) then Inl CiphertextTooShort
           else (case gcmOpen (crypto e) (encKey e)
                        (take (gcmNonceSize (crypto e)) d) (drop (gcmNonceSize (crypto e)) d) of
                   None \<Rightarrow> Inl GcmOpenFailed
                 | Some plaintext \<Rightarrow> Inr plaintext)))"

record MemoryKeyStore =
  keys :: "string \<rightharpoonup> (string \<rightharpoonup> string)"
  usage :: "string \<rightharpoonup> (string \<rightharpoonup> KeyUsage)"
  health :: "string \<rightharpoonup> (string \<rightharpoonup> bool)"
  encryptor :: "KeyEncryptor option"

definition NewMemoryKeyStore :: "KeyEncryptor option \<Rightarrow> MemoryKeyStore" where
  "NewMemoryKeyStore enc =
     \<lparr>keys = Map.empty, usage = Map.empty, health = Map.empty, encryptor = enc\<rparr>"

definition newUsage :: "Time \<Rightarrow> KeyUsage" where
  "newUsage now =
     \<lparr>LastUsed = now, UsageCount = 0, TokensUsed = 0, CostUsed = 0, DailyCost = 0,
      ErrorCount = 0, LastError = []\<rparr>"

text \<open>
  \<open>StoreKey\<close>: the three inner maps of a provider are made together when the provider has
  no key map; a failing encryption returns before any entry is written. The three writes
  follow in the source's order; a write into a missing inner map is Go's nil-map panic.
\<close>

definition StoreKey ::
  "MemoryKeyStore \<Rightarrow> string \<Rightarrow> string \<Rightarrow> string \<Rightarrow> Time \<Rightarrow> string option
     \<Rightarrow> MemoryKeyStore \<times> error option" where
  "StoreKey m provider keyName key now nonce =
     (let m1 = (if keys m provider = None
                then m\<lparr>keys := (keys m)(provider \<mapsto> Map.empty),
                       usage := (usage m)(provider \<mapsto> Map.empty),
                       health := (health m)(provider \<mapsto> Map.empty)\<rparr>
                else m)
      in case (case encryptor m1 of
                 Some e \<Rightarrow> Encrypt e nonce key
               | None \<Rightarrow> Inr key) of
           Inl err \<Rightarrow> (m1, Some (EncryptFailed err))
         | Inr storedKey \<Rightarrow>
             (case keys m1 provider of
                None \<Rightarrow> (m1, Some PanicNilMap)
              | Some pk \<Rightarrow>
                  (let m2 = m1\<lparr>keys := (keys m1)(provider \<mapsto> pk(keyName \<mapsto> storedKey))\<rparr>
                   in case usage m2 provider of
                        None \<Rightarrow> (m2, Some PanicNilMap)
                      | Some pu \<Rightarrow>
                          (let m3 = m2\<lparr>usage := (usage m2)(provider \<mapsto> pu(keyName \<mapsto> newUsage now))\<rparr>
                           in case health m3 provider of
                                None \<Rightarrow> (m3, Some PanicNilMap)
                              | Some ph \<Rightarrow>
                                  (m3\<lparr>health := (health m3)(provider \<mapsto> ph(keyName \<mapsto> True))\<rparr>,
                                   None)))))"

definition GetKey :: "MemoryKeyStore \<Rightarrow> string \<Rightarrow> string \<Rightarrow> error + string" where
  "GetKey m provider keyName =
     (case keys m provider of
        None \<Rightarrow> Inl (ProviderNotFound provider)
      | Some providerKeys \<Rightarrow>
          (case providerKeys keyName of
             None \<Rightarrow> Inl (KeyNotFound keyName provider)
           | Some encryptedKey \<Rightarrow>
               (case encryptor m of
                  Some e \<Rightarrow> Decrypt e encryptedKey
                | None \<Rightarrow> Inr encryptedKey)))"

text \<open>\<open>DeleteKey\<close>: Go's \<open>delete\<close> on a nil map does nothing.\<close>

definition deleteEntry :: "(string \<rightharpoonup> (string \<rightharpoonup> 'a)) \<Rightarrow> string \<Rightarrow> string \<Rightarrow> (string \<rightharpoonup> (string \<rightharpoonup> 'a))" where
  "deleteEntry mm provider keyName =
     (case mm provider of
        None \<Rightarrow> mm
      | Some inner \<Rightarrow> mm(provider \<mapsto> inner(keyName := None)))"

definition DeleteKey :: "MemoryKeyStore \<Rightarrow> string \<Rightarrow> string \<Rightarrow> MemoryKeyStore \<times> error option" where
  "DeleteKey m provider keyName =
     (if keys m provider \<noteq> None
      then (m\<lparr>keys := deleteEntry (keys m) provider keyName,
              usage := deleteEntry (usage m) provider keyName,
              health := deleteEntry (health m) provider keyName\<rparr>, None)
      else (m, None))"

definition IsHealthy :: "MemoryKeyStore \<Rightarrow> string \<Rightarrow> string \<Rightarrow> error + bool" where
  "IsHealthy m provider keyName =
     (case health m provider of
        None \<Rightarrow> Inl (ProviderNotFound provider)
      | Some h \<Rightarrow>
          (case h keyName of
             None \<Rightarrow> Inl (KeyNotFound keyName provider)
           | Some healthy \<Rightarrow> Inr healthy))"

text \<open>
  \<open>UpdateUsage\<close> reads the clock twice: \<open>t1\<close> is the \<open>time.Now()\<close> stored into
  \<open>LastUsed\<close>, \<open>t2\<close> the later \<open>now\<close> of the daily reset. The comparison of days reads
  \<open>usage.LastUsed\<close> after it has been overwritten with \<open>t1\<close>, as the source does.
  \<open>tokens\<close> is Go's \<open>int\<close>, converted to \<open>int64\<close>.
\<close>

definition UpdateUsage ::
  "MemoryKeyStore \<Rightarrow> string \<Rightarrow> string \<Rightarrow> int \<Rightarrow> real \<Rightarrow> Time \<Rightarrow> Time
     \<Rightarrow> MemoryKeyStore \<times> error option" where
  "UpdateUsage m provider keyName tokens cost t1 t2 =
     (case usage m provider of
        None \<Rightarrow> (m, Some (ProviderNotFound provider))
      | Some pu \<Rightarrow>
          (case pu keyName of
             None \<Rightarrow> (m, Some (KeyNotFound keyName provider))
           | Some u \<Rightarrow>
               (let u1 = u\<lparr>LastUsed := t1,
                            UsageCount := UsageCount u + 1,
                            TokensUsed := TokensUsed u + word_of_int tokens,
                            CostUsed := CostUsed u + cost\<rparr>;
                    u2 = (if Day (LastUsed u1) \<noteq> Day t2
                          then u1\<lparr>DailyCost := cost\<rparr>
                          else u1\<lparr>DailyCost := DailyCost u1 + cost\<rparr>)
                in (m\<lparr>usage := (usage m)(provider \<mapsto> pu(keyName \<mapsto> u2))\<rparr>, None))))"

definition GetUsage :: "MemoryKeyStore \<Rightarrow> string \<Rightarrow> string \<Rightarrow> error + KeyUsage" where
  "GetUsage m provider keyName =
     (case usage m provider of
        None \<Rightarrow> Inl (ProviderNotFound provider)
      | Some pu \<Rightarrow>
          (case pu keyName of
             None \<Rightarrow> Inl (KeyNotFound keyName provider)
           | Some u \<Rightarrow>
               Inr \<lparr>LastUsed = LastUsed u, UsageCount = UsageCount u,
                    TokensUsed = TokensUsed u, CostUsed = CostUsed u,
                    DailyCost = DailyCost u, ErrorCount = ErrorCount u,
                    LastError = LastError u\<rparr>))"

definition SetHealth :: "MemoryKeyStore \<Rightarrow> string \<Rightarrow> string \<Rightarrow> bool \<Rightarrow> MemoryKeyStore \<times> error option" where
  "SetHealth m provider keyName healthy =
     (case health m provider of
        None \<Rightarrow> (m, Some (ProviderNotFound provider))
      | Some h \<Rightarrow> (m\<lparr>health := (health m)(provider \<mapsto> h(keyName \<mapsto> healthy))\<rparr>, None))"

text \<open>\<open>RecordError\<close>: \<open>ErrorCount > 5\<close> is a signed comparison of \<open>int64\<close>.\<close>

definition RecordError :: "MemoryKeyStore \<Rightarrow> string \<Rightarrow> string \<Rightarrow> string \<Rightarrow> MemoryKeyStore \<times> error option" where
  "RecordError m provider keyName errorMsg =
     (case usage m provider of
        None \<Rightarrow> (m, Some (ProviderNotFound provider))
      | Some pu \<Rightarrow>
          (case pu keyName of
             None \<Rightarrow> (m, Some (KeyNotFound keyName provider))
           | Some u \<Rightarrow>
               (let u1 = u\<lparr>ErrorCount := ErrorCount u + 1, LastError := errorMsg\<rparr>;
                    m1 = m\<lparr>usage := (usage m)(provider \<mapsto> pu(keyName \<mapsto> u1))\<rparr>
                in if 5 <s ErrorCount u1
                   then (case health m1 provider of
                           None \<Rightarrow> (m1, Some PanicNilMap)
                         | Some h \<Rightarrow>
                             (m1\<lparr>health := (health m1)(provider \<mapsto> h(keyName \<mapsto> False))\<rparr>, None))
                   else (m1, None))))"

section \<open>The rotator\<close>

record KeySelection =
  sProvider :: string
  sKeyName :: string
  sKey :: string
  sRateLimit :: int
  sCostLimit :: real
  sUsageCount :: "64 word"
  sLastUsed :: Time
  sStrategy :: string

text \<open>
  \<open>KeyRotator\<close>: the key store is the \<open>MemoryKeyStore\<close> the rotator holds; the random
  source is an argument of \<open>GetNextKey\<close>. The rotation index is never negative (it is 0
  or a remainder), so it is a natural number.
\<close>

record KeyRotator =
  config :: Config
  keyStore :: MemoryKeyStore
  lastUsed :: "string \<rightharpoonup> (string \<rightharpoonup> Time)"
  rotationIdx :: "string \<rightharpoonup> nat"

definition NewKeyRotator :: "Config \<Rightarrow> MemoryKeyStore \<Rightarrow> KeyRotator" where
  "NewKeyRotator cfg ks =
     \<lparr>config = cfg, keyStore = ks, lastUsed = Map.empty, rotationIdx = Map.empty\<rparr>"

text \<open>
  A selection step yields Go's triple (selectedKey, keyName, err), where a nil
  \<open>selectedKey\<close> is \<open>None\<close>, or it panics (\<open>Inl\<close>).

  \<open>selectRoundRobin\<close> writes the advanced index before it reads \<open>keys[idx]\<close>; the read
  panics when \<open>idx\<close> is not below \<open>len(keys)\<close>.
\<close>

type_synonym selected = "APIKey option \<times> string \<times> error option"

definition selectRoundRobin ::
  "KeyRotator \<Rightarrow> string \<Rightarrow> APIKey list \<Rightarrow> KeyRotator \<times> (error + selected)" where
  "selectRoundRobin kr provider ks =
     (if length ks = 0 then (kr, Inr (None, [], None))
      else
        (let idx = (case rotationIdx kr provider of None \<Rightarrow> 0 | Some i \<Rightarrow> i);
             kr1 = kr\<lparr>rotationIdx := (rotationIdx kr)(provider \<mapsto> (idx + 1) mod length ks)\<rparr>
         in if idx < length ks
            then (kr1, Inr (Some (ks ! idx), Name (ks ! idx), None))
            else (kr1, Inl (PanicIndexOutOfRange idx (length ks)))))"

text \<open>
  The loop of \<open>selectLeastUsed\<close>, with its state (bestKey, bestKeyName, minUsage,
  oldestLastUsed); a key without usage data ends the loop (\<open>break\<close>). \<open>bestKey = &key\<close> is
  read with a loop variable per iteration (Go 1.22); the returned name is the same under
  the older semantics. The comparisons of \<open>int64\<close> are signed.
\<close>

fun leastUsedLoop ::
  "MemoryKeyStore \<Rightarrow> string \<Rightarrow> APIKey list \<Rightarrow> APIKey option \<times> string \<times> 64 word \<times> Time
     \<Rightarrow> APIKey option \<times> string \<times> 64 word \<times> Time" where
  "leastUsedLoop store provider [] st = st"
| "leastUsedLoop store provider (key # rest) (bestKey, bestKeyName, minUsage, oldestLastUsed) =
     (case GetUsage store provider (Name key) of
        Inl err \<Rightarrow> (Some key, Name key, minUsage, oldestLastUsed)
      | Inr u \<Rightarrow>
          (if minUsage = - 1 \<or> UsageCount u <s minUsage \<or>
              (UsageCount u = minUsage \<and> Before (LastUsed u) oldestLastUsed)
           then leastUsedLoop store provider rest (Some key, Name key, UsageCount u, LastUsed u)
           else leastUsedLoop store provider rest (bestKey, bestKeyName, minUsage, oldestLastUsed)))"

definition selectLeastUsed :: "MemoryKeyStore \<Rightarrow> string \<Rightarrow> APIKey list \<Rightarrow> Time \<Rightarrow> selected" where
  "selectLeastUsed store provider ks now =
     (if length ks = 0 then (None, [], Some NoKeysAvailable)
      else (case leastUsedLoop store provider ks (None, [], - 1, now) of
              (bestKey, bestKeyName, minUsage, oldestLastUsed) \<Rightarrow> (bestKey, bestKeyName, None)))"

text \<open>
  The loop of \<open>selectCostOptimized\<close>, with its state (bestKey, bestKeyName, lowestCost);
  a key without usage data becomes the best key and the loop goes on (\<open>continue\<close>).
\<close>

fun costOptimizedLoop ::
  "MemoryKeyStore \<Rightarrow> string \<Rightarrow> APIKey list \<Rightarrow> APIKey option \<times> string \<times> real
     \<Rightarrow> APIKey option \<times> string \<times> real" where
  "costOptimizedLoop store provider [] st = st"
| "costOptimizedLoop store provider (key # rest) (bestKey, bestKeyName, lowestCost) =
     (case GetUsage store provider (Name key) of
        Inl err \<Rightarrow> costOptimizedLoop store provider rest (Some key, Name key, lowestCost)
      | Inr u \<Rightarrow>
          (if lowestCost = - 1 \<or> DailyCost u < lowestCost
           then (if CostLimit key \<le> 0 \<or> DailyCost u < CostLimit key
                 then costOptimizedLoop store provider rest (Some key, Name key, DailyCost u)
                 else costOptimizedLoop store provider rest (bestKey, bestKeyName, lowestCost))
           else costOptimizedLoop store provider rest (bestKey, bestKeyName, lowestCost)))"

definition selectCostOptimized :: "MemoryKeyStore \<Rightarrow> string \<Rightarrow> APIKey list \<Rightarrow> selected" where
  "selectCostOptimized store provider ks =
     (if length ks = 0 then (None, [], Some NoKeysAvailable)
      else (case costOptimizedLoop store provider ks (None, [], - 1) of
              (bestKey, bestKeyName, lowestCost) \<Rightarrow>
                (if bestKey = None then (None, [], Some AllKeysOverCostLimit)
                 else (bestKey, bestKeyName, None))))"

text \<open>\<open>selectRandom\<close>: \<open>rand.Intn(n)\<close> lies in \<open>[0, n)\<close>; \<open>rnd\<close> is the raw draw.\<close>

definition selectRandom :: "APIKey list \<Rightarrow> nat \<Rightarrow> selected" where
  "selectRandom ks rnd =
     (if length ks = 0 then (None, [], None)
      else (let idx = rnd mod length ks in (Some (ks ! idx), Name (ks ! idx), None)))"

definition selectSingle :: "APIKey list \<Rightarrow> selected" where
  "selectSingle ks =
     (case ks of
        [] \<Rightarrow> (None, [], None)
      | k # rest \<Rightarrow> (Some k, Name k, None))"

definition updateLastUsed :: "KeyRotator \<Rightarrow> string \<Rightarrow> string \<Rightarrow> Time \<Rightarrow> KeyRotator" where
  "updateLastUsed kr provider keyName now =
     kr\<lparr>lastUsed := (lastUsed kr)(provider \<mapsto>
           (case lastUsed kr provider of None \<Rightarrow> Map.empty | Some lu \<Rightarrow> lu)(keyName \<mapsto> now))\<rparr>"

definition getFallbackKey ::
  "KeyRotator \<Rightarrow> string \<Rightarrow> string \<Rightarrow> APIKey list \<Rightarrow> Time \<Rightarrow> KeyRotator \<times> (error + KeySelection)" where
  "getFallbackKey kr provider excludeKey ks now =
     (let fallbackKeys =
            filter (\<lambda>key. Name key \<noteq> excludeKey \<and>
                     IsHealthy (keyStore kr) provider (Name key) = Inr True) ks
      in if length fallbackKeys = 0 then (kr, Inl NoHealthyFallback)
         else
           (case selectRoundRobin kr provider fallbackKeys of
              (kr1, Inl panic) \<Rightarrow> (kr1, Inl panic)
            | (kr1, Inr (None, keyName, err)) \<Rightarrow> (kr1, Inl FallbackSelectionFailed)
            | (kr1, Inr (Some selectedKey, keyName, err)) \<Rightarrow>
                (case GetKey (keyStore kr1) provider keyName of
                   Inl e \<Rightarrow> (kr1, Inl (RetrieveFallbackKeyFailed e))
                 | Inr keyValue \<Rightarrow>
                     (let u = (case GetUsage (keyStore kr1) provider keyName of
                                 Inl e \<Rightarrow> newUsage now
                               | Inr u \<Rightarrow> u)
                      in (updateLastUsed kr1 provider keyName now,
                          Inr \<lparr>sProvider = provider, sKeyName = keyName, sKey = keyValue,
                               sRateLimit = RateLimit selectedKey,
                               sCostLimit = CostLimit selectedKey,
                               sUsageCount = UsageCount u, sLastUsed = LastUsed u,
                               sStrategy = RotationRoundRobin\<rparr>)))))"

text \<open>The \<open>switch\<close> of \<open>GetNextKey\<close> on the provider's strategy, round robin by default.\<close>

definition selectByStrategy ::
  "KeyRotator \<Rightarrow> string \<Rightarrow> string \<Rightarrow> APIKey list \<Rightarrow> Time \<Rightarrow> nat
     \<Rightarrow> KeyRotator \<times> (error + selected)" where
  "selectByStrategy kr provider strategy enabledKeys now rnd =
     (if strategy = RotationRoundRobin
        then selectRoundRobin kr provider enabledKeys
      else if strategy = RotationLeastUsed
        then (kr, Inr (selectLeastUsed (keyStore kr) provider enabledKeys now))
      else if strategy = RotationCostOptimized
        then (kr, Inr (selectCostOptimized (keyStore kr) provider enabledKeys))
      else if strategy = RotationRandom
        then (kr, Inr (selectRandom enabledKeys rnd))
      else if strategy = RotationSingle
        then (kr, Inr (selectSingle enabledKeys))
      else selectRoundRobin kr provider enabledKeys)"

text \<open>
  \<open>GetNextKey\<close>, with the clock reading \<open>now\<close> and the random draw \<open>rnd\<close> of the call.
  The result is the rotator after the call and the selection or the error.
\<close>

definition GetNextKey ::
  "KeyRotator \<Rightarrow> string \<Rightarrow> Time \<Rightarrow> nat \<Rightarrow> KeyRotator \<times> (error + KeySelection)" where
  "GetNextKey kr provider now rnd =
     (case GetProvider (config kr) provider of
        Inl e \<Rightarrow> (kr, Inl (RotatorProviderNotFound e))
      | Inr providerConfig \<Rightarrow>
          (let enabledKeys = GetEnabledKeys providerConfig;
               strategy = Strategy (Rotation providerConfig)
           in if length enabledKeys = 0 then (kr, Inl (NoEnabledKeys provider))
              else
                (case selectByStrategy kr provider strategy enabledKeys now rnd of
                   (kr1, Inl panic) \<Rightarrow> (kr1, Inl panic)
                 | (kr1, Inr (selectedKey, keyName, Some err)) \<Rightarrow>
                     (kr1, Inl (KeySelectionFailed err))
                 | (kr1, Inr (None, keyName, None)) \<Rightarrow> (kr1, Inl (NoSuitableKey provider))
                 | (kr1, Inr (Some selectedKey, keyName, None)) \<Rightarrow>
                     (case (if HealthCheck (Rotation providerConfig)
                            then IsHealthy (keyStore kr1) provider keyName
                            else Inr True) of
                        Inl e \<Rightarrow> (kr1, Inl (HealthCheckFailed e))
                      | Inr healthy \<Rightarrow>
                          (if \<not> healthy
                           then (if FallbackEnabled (Rotation providerConfig) \<and>
                                    length enabledKeys > 1
                                 then getFallbackKey kr1 provider keyName enabledKeys now
                                 else (kr1, Inl (UnhealthyNoFallback keyName)))
                           else
                             (case GetKey (keyStore kr1) provider keyName of
                                Inl e \<Rightarrow> (kr1, Inl (RetrieveKeyFailed e))
                              | Inr keyValue \<Rightarrow>
                                  (let u = (case GetUsage (keyStore kr1) provider keyName of
                                              Inl e \<Rightarrow> newUsage now
                                            | Inr u \<Rightarrow> u)
                                   in (updateLastUsed kr1 provider keyName now,
                                       Inr \<lparr>sProvider = provider, sKeyName = keyName,
                                            sKey = keyValue,
                                            sRateLimit = RateLimit selectedKey,
                                            sCostLimit = CostLimit selectedKey,
                                            sUsageCount = UsageCount u,
                                            sLastUsed = LastUsed u,
                                            sStrategy = strategy\<rparr>))))))))"

text \<open>The rotator's \<open>RecordUsage\<close> and \<open>RecordError\<close> hand over to the key store.\<close>

definition RecordUsage ::
  "KeyRotator \<Rightarrow> string \<Rightarrow> string \<Rightarrow> int \<Rightarrow> real \<Rightarrow> Time \<Rightarrow> Time \<Rightarrow> KeyRotator \<times> error option" where
  "RecordUsage kr provider keyName tokens cost t1 t2 =
     (case UpdateUsage (keyStore kr) provider keyName tokens cost t1 t2 of
        (m, err) \<Rightarrow> (kr\<lparr>keyStore := m\<rparr>, err))"

definition rotatorRecordError ::
  "KeyRotator \<Rightarrow> string \<Rightarrow> string \<Rightarrow> string \<Rightarrow> KeyRotator \<times> error option" where
  "rotatorRecordError kr provider keyName errorMsg =
     (case RecordError (keyStore kr) provider keyName errorMsg of
        (m, err) \<Rightarrow> (kr\<lparr>keyStore := m\<rparr>, err))"

section \<open>Runs of operations and sample states\<close>

text \<open>A run of \<open>RecordError\<close> calls on one key, one call per message.\<close>

definition recordErrors :: "MemoryKeyStore \<Rightarrow> string \<Rightarrow> string \<Rightarrow> string list \<Rightarrow> MemoryKeyStore" where
  "recordErrors m provider keyName msgs =
     foldl (\<lambda>m' msg. fst (RecordError m' provider keyName msg)) m msgs"

text \<open>Store and delete operations, and a run of them from left to right.\<close>

datatype storeOp =
    OpStore string string string Time "string option"
  | OpDelete string string

fun applyOp :: "MemoryKeyStore \<Rightarrow> storeOp \<Rightarrow> MemoryKeyStore" where
  "applyOp m (OpStore provider keyName key now nonce) = fst (StoreKey m provider keyName key now nonce)"
| "applyOp m (OpDelete provider keyName) = fst (DeleteKey m provider keyName)"

definition runOps :: "MemoryKeyStore \<Rightarrow> storeOp list \<Rightarrow> MemoryKeyStore" where
  "runOps m ops = foldl applyOp m ops"

definition keyNames :: "(string \<rightharpoonup> (string \<rightharpoonup> 'a)) \<Rightarrow> string \<Rightarrow> string set" where
  "keyNames mm provider = (case mm provider of None \<Rightarrow> {} | Some inner \<Rightarrow> dom inner)"

text \<open>Consecutive calls of \<open>GetNextKey\<close>, one per pair of clock reading and random draw.\<close>

fun consecutiveCalls ::
  "KeyRotator \<Rightarrow> string \<Rightarrow> (Time \<times> nat) list \<Rightarrow> KeyRotator \<times> (error + KeySelection) list" where
  "consecutiveCalls kr provider [] = (kr, [])"
| "consecutiveCalls kr provider ((now, rnd) # rest) =
     (case GetNextKey kr provider now rnd of
        (kr1, r) \<Rightarrow>
          (case consecutiveCalls kr1 provider rest of
             (kr2, rs) \<Rightarrow> (kr2, r # rs)))"

definition cursor :: "KeyRotator \<Rightarrow> string \<Rightarrow> nat" where
  "cursor kr provider = (case rotationIdx kr provider of None \<Rightarrow> 0 | Some i \<Rightarrow> i)"

definition selectedName :: "error + KeySelection \<Rightarrow> string option" where
  "selectedName r = (case r of Inl e \<Rightarrow> None | Inr sel \<Rightarrow> Some (sKeyName sel))"

text \<open>
  Sample states: provider \<open>openai\<close> with the keys \<open>primary\<close> and \<open>secondary\<close> of the
  repository's example configuration, stored on 2024-01-01; \<open>day2\<close> is the next day.
\<close>

definition day1 :: Time where
  "day1 = \<lparr>unixNano = 1704067200000000000, Year = 2024, Month = 1, MDay = 1\<rparr>"

definition day2 :: Time where
  "day2 = \<lparr>unixNano = 1704153600000000000, Year = 2024, Month = 1, MDay = 2\<rparr>"

definition apiKey :: "string \<Rightarrow> string \<Rightarrow> real \<Rightarrow> APIKey" where
  "apiKey name secret costLimit =
     \<lparr>Key = secret, Name = name, RateLimit = 1000, CostLimit = costLimit, Enabled = True,
      kLastUsed = zeroTime, kUsageCount = 0, kCostUsed = 0\<rparr>"

definition primaryKey :: APIKey where
  "primaryKey = apiKey ''primary'' ''sk-1'' 100"

definition secondaryKey :: APIKey where
  "secondaryKey = apiKey ''secondary'' ''sk-2'' 75"

definition openaiProvider :: "string \<Rightarrow> ProviderConfig" where
  "openaiProvider strategy =
     \<lparr>APIKeys = [primaryKey, secondaryKey],
      Rotation = \<lparr>Strategy = strategy, Interval = [], HealthCheck = True,
                  FallbackEnabled = True\<rparr>\<rparr>"

definition twoKeyConfig :: "string \<Rightarrow> Config" where
  "twoKeyConfig strategy = \<lparr>Providers = [''openai'' \<mapsto> openaiProvider strategy]\<rparr>"

definition twoKeyStore :: MemoryKeyStore where
  "twoKeyStore =
     runOps (NewMemoryKeyStore None)
       [OpStore ''openai'' ''primary'' ''sk-1'' day1 None,
        OpStore ''openai'' ''secondary'' ''sk-2'' day1 None]"

text \<open>The store after the health checker has marked \<open>primary\<close> unhealthy.\<close>

definition primaryDownStore :: MemoryKeyStore where
  "primaryDownStore = fst (SetHealth twoKeyStore ''openai'' ''primary'' False)"

text \<open>The store after \<open>primary\<close> has spent 150 against its daily limit of 100.\<close>

definition overBudgetStore :: MemoryKeyStore where
  "overBudgetStore = fst (UpdateUsage twoKeyStore ''openai'' ''primary'' 1000 150 day1 day1)"

text \<open>The store after \<open>primary\<close> has been deleted and \<open>secondary\<close> has spent 5.\<close>

definition costStore :: MemoryKeyStore where
  "costStore =
     fst (UpdateUsage (fst (DeleteKey twoKeyStore ''openai'' ''primary''))
            ''openai'' ''secondary'' 1000 5 day1 day1)"

section \<open>Predicates of the claims\<close>

text \<open>
  The body of the loop of \<open>HealthChecker.performHealthCheck\<close> for one key: the probe's
  verdict is written with \<open>SetHealth\<close>, and a failed probe is recorded as an error.
\<close>

definition writeHealthResult ::
  "MemoryKeyStore \<Rightarrow> string \<Rightarrow> string \<Rightarrow> bool \<Rightarrow> string \<Rightarrow> MemoryKeyStore" where
  "writeHealthResult m provider keyName valid message =
     (let m1 = fst (SetHealth m provider keyName valid)
      in if \<not> valid then fst (RecordError m1 provider keyName message) else m1)"

text \<open>
  The three maps of a store are in step: a provider has all three inner maps or none,
  and the inner maps have the same key names.
\<close>

definition inStep :: "MemoryKeyStore \<Rightarrow> bool" where
  "inStep m =
     (\<forall>provider.
        (keys m provider = None \<and> usage m provider = None \<and> health m provider = None) \<or>
        (\<exists>pk pu ph. keys m provider = Some pk \<and> usage m provider = Some pu \<and>
                     health m provider = Some ph \<and> dom pk = dom pu \<and> dom pu = dom ph))"


text \<open>
  A candidate is over budget for \<open>selectCostOptimized\<close> when it has a usage record, a
  positive cost limit and a daily cost at or over that limit.
\<close>

definition overBudget :: "MemoryKeyStore \<Rightarrow> string \<Rightarrow> APIKey \<Rightarrow> bool" where
  "overBudget store provider k =
     (case GetUsage store provider (Name k) of
        Inl e \<Rightarrow> False
      | Inr u \<Rightarrow> CostLimit k > 0 \<and> DailyCost u \<ge> CostLimit k)"


section \<open>Sample states, evaluated\<close>

lemma twoKeyStore_maps:
  "keys twoKeyStore = [''openai'' \<mapsto> [''primary'' \<mapsto> ''sk-1'', ''secondary'' \<mapsto> ''sk-2'']]"
  "usage twoKeyStore = [''openai'' \<mapsto> [''primary'' \<mapsto> newUsage day1, ''secondary'' \<mapsto> newUsage day1]]"
  "health twoKeyStore = [''openai'' \<mapsto> [''primary'' \<mapsto> True, ''secondary'' \<mapsto> True]]"
  "encryptor twoKeyStore = None"
  by (simp_all add: twoKeyStore_def runOps_def StoreKey_def NewMemoryKeyStore_def)

section \<open>UpdateUsage: the counters and the daily cost\<close>

text \<open>
  What one \<open>UpdateUsage\<close> call does to an existing record: the request count goes up by
  one, the tokens by \<open>tokens\<close>, the cumulative cost by \<open>cost\<close>, \<open>LastUsed\<close> becomes the
  first clock reading. The daily cost is reset only when the two clock readings of the
  call itself fall on different days of the month; the record's earlier \<open>LastUsed\<close> plays
  no part.
\<close>

lemma UpdateUsage_effect:
  assumes "usage m provider = Some pu" and "pu keyName = Some u"
  shows "UpdateUsage m provider keyName tokens cost t1 t2 =
           (m\<lparr>usage := (usage m)(provider \<mapsto> pu(keyName \<mapsto>
               u\<lparr>LastUsed := t1, UsageCount := UsageCount u + 1,
                  TokensUsed := TokensUsed u + word_of_int tokens,
                  CostUsed := CostUsed u + cost,
                  DailyCost := (if Day t1 \<noteq> Day t2 then cost else DailyCost u + cost)\<rparr>))\<rparr>,
            None)"
  using assms by (simp add: UpdateUsage_def Let_def)

text \<open>
  Claim C2 (the code departs from it). The key \<open>primary\<close> is used on 2024-01-01 at a cost
  of 5, then on 2024-01-02 at a cost of 3. The two calendar dates differ, so the claim
  asks for a daily cost of 3 after the second call; \<open>UpdateUsage\<close> leaves 8, because it
  has overwritten \<open>LastUsed\<close> with the current time before it compares the days. The
  other counters are as the claim says.
\<close>

theorem UpdateUsage_next_day_accumulates:
  "GetUsage (fst (UpdateUsage twoKeyStore ''openai'' ''primary'' 10 5 day1 day1))
       ''openai'' ''primary''
     = Inr \<lparr>LastUsed = day1, UsageCount = 1, TokensUsed = 10, CostUsed = 5, DailyCost = 5,
            ErrorCount = 0, LastError = []\<rparr>
   \<and> calendarDate day1 \<noteq> calendarDate day2
   \<and> GetUsage (fst (UpdateUsage
                     (fst (UpdateUsage twoKeyStore ''openai'' ''primary'' 10 5 day1 day1))
                     ''openai'' ''primary'' 20 3 day2 day2)) ''openai'' ''primary''
     = Inr \<lparr>LastUsed = day2, UsageCount = 2, TokensUsed = 30, CostUsed = 8, DailyCost = 8,
            ErrorCount = 0, LastError = []\<rparr>"
  by (simp add: UpdateUsage_def GetUsage_def twoKeyStore_maps newUsage_def Day_def
        calendarDate_def day1_def day2_def)

section \<open>GetNextKey on the sample states\<close>

text \<open>
  Claim C1 (the code departs from it). Two enabled keys, health check and fallback on,
  strategy round robin, a fresh rotator; \<open>primary\<close> is unhealthy and \<open>secondary\<close> is
  healthy. The first selection takes index 0 and advances the index to 1; the fallback
  then calls \<open>selectRoundRobin\<close> on the one surviving key with that index, and the read
  \<open>keys[1]\<close> of a list of length 1 panics. The claim asks for \<open>secondary\<close>.
\<close>

theorem GetNextKey_fallback_index_out_of_range:
  "GetNextKey (NewKeyRotator (twoKeyConfig RotationRoundRobin) primaryDownStore)
       ''openai'' day2 rnd
   = (\<lparr>config = twoKeyConfig RotationRoundRobin, keyStore = primaryDownStore,
       lastUsed = Map.empty, rotationIdx = [''openai'' \<mapsto> 0]\<rparr>,
      Inl (PanicIndexOutOfRange 1 1))"
  by (simp add: GetNextKey_def selectByStrategy_def NewKeyRotator_def twoKeyConfig_def openaiProvider_def
        primaryDownStore_def SetHealth_def twoKeyStore_maps GetProvider_def GetEnabledKeys_def primaryKey_def
        secondaryKey_def apiKey_def IsValid_def CanUse_def RotationRoundRobin_def
        selectRoundRobin_def IsHealthy_def getFallbackKey_def Let_def)

text \<open>
  Claim C5 (the code departs from it). The ledger of the key store shows \<open>primary\<close> at a
  daily cost of 150, over its limit of 100. \<open>GetEnabledKeys\<close> reads the \<open>CostUsed\<close>
  field of the configuration's \<open>APIKey\<close>, which nothing updates, so \<open>primary\<close> stays a
  candidate and round robin returns it.
\<close>

theorem GetNextKey_returns_over_budget_key:
  "GetUsage overBudgetStore ''openai'' ''primary''
     = Inr \<lparr>LastUsed = day1, UsageCount = 1, TokensUsed = 1000, CostUsed = 150,
            DailyCost = 150, ErrorCount = 0, LastError = []\<rparr>
   \<and> snd (GetNextKey (NewKeyRotator (twoKeyConfig RotationRoundRobin) overBudgetStore)
            ''openai'' day1 rnd)
     = Inr \<lparr>sProvider = ''openai'', sKeyName = ''primary'', sKey = ''sk-1'',
            sRateLimit = 1000, sCostLimit = 100, sUsageCount = 1, sLastUsed = day1,
            sStrategy = RotationRoundRobin\<rparr>"
  by (simp add: GetNextKey_def selectByStrategy_def NewKeyRotator_def twoKeyConfig_def openaiProvider_def
        overBudgetStore_def
        UpdateUsage_def twoKeyStore_maps GetProvider_def GetEnabledKeys_def primaryKey_def
        secondaryKey_def apiKey_def IsValid_def CanUse_def RotationRoundRobin_def
        selectRoundRobin_def IsHealthy_def GetKey_def GetUsage_def updateLastUsed_def
        newUsage_def Day_def Let_def)

section \<open>selectCostOptimized\<close>

text \<open>
  Claim C4 (the code departs from it). \<open>primary\<close> has no usage record, \<open>secondary\<close> has
  a daily cost of 5. With \<open>primary\<close> first in the list the loop takes it, leaves
  \<open>lowestCost\<close> at its initial -1 and goes on, so \<open>secondary\<close> replaces it; with
  \<open>primary\<close> last, \<open>primary\<close> is returned. The claim treats the key without a usage
  record as the one of lowest cost in both orders.
\<close>

theorem selectCostOptimized_displaces_key_without_usage:
  "GetUsage costStore ''openai'' ''primary'' = Inl (KeyNotFound ''primary'' ''openai'')
   \<and> selectCostOptimized costStore ''openai'' [primaryKey, secondaryKey]
       = (Some secondaryKey, ''secondary'', None)
   \<and> selectCostOptimized costStore ''openai'' [secondaryKey, primaryKey]
       = (Some primaryKey, ''primary'', None)"
  by (simp add: costStore_def selectCostOptimized_def UpdateUsage_def DeleteKey_def
        deleteEntry_def twoKeyStore_maps GetUsage_def primaryKey_def secondaryKey_def
        apiKey_def newUsage_def Day_def Let_def)

section \<open>GetNextKey leaves the key store alone\<close>

lemma selectRoundRobin_frame:
  "keyStore (fst (selectRoundRobin kr provider ks)) = keyStore kr"
  "config (fst (selectRoundRobin kr provider ks)) = config kr"
  "lastUsed (fst (selectRoundRobin kr provider ks)) = lastUsed kr"
  by (simp_all add: selectRoundRobin_def Let_def)

lemma selectByStrategy_frame:
  "keyStore (fst (selectByStrategy kr provider strategy ks now rnd)) = keyStore kr"
  "config (fst (selectByStrategy kr provider strategy ks now rnd)) = config kr"
  by (simp_all add: selectByStrategy_def selectRoundRobin_frame)

lemma updateLastUsed_frame:
  "keyStore (updateLastUsed kr provider keyName now) = keyStore kr"
  "config (updateLastUsed kr provider keyName now) = config kr"
  "rotationIdx (updateLastUsed kr provider keyName now) = rotationIdx kr"
  by (simp_all add: updateLastUsed_def)

lemma getFallbackKey_frame:
  "keyStore (fst (getFallbackKey kr provider excludeKey ks now)) = keyStore kr \<and>
   config (fst (getFallbackKey kr provider excludeKey ks now)) = config kr"
proof -
  let ?fb = "filter (\<lambda>key. Name key \<noteq> excludeKey \<and>
                       IsHealthy (keyStore kr) provider (Name key) = Inr True) ks"
  obtain kr1 r where sr: "selectRoundRobin kr provider ?fb = (kr1, r)"
    by (cases "selectRoundRobin kr provider ?fb")
  have k1: "keyStore kr1 = keyStore kr" "config kr1 = config kr"
    using selectRoundRobin_frame(1,2) [of kr provider ?fb] sr by simp_all
  show ?thesis
    unfolding getFallbackKey_def Let_def sr
    by (simp add: k1 updateLastUsed_frame split: sum.split option.split prod.split)
qed

text \<open>
  Claim C10. Whatever \<open>GetNextKey\<close> returns, a selection or an error, the key store of
  the rotator after the call is the key store before it, and so is the configuration:
  every usage record (request count, tokens, cumulative and daily cost, error count,
  last-used time) reads the same before and after. Only the rotator's own last-used map
  and rotation index can differ.
\<close>

theorem GetNextKey_keeps_key_store:
  "keyStore (fst (GetNextKey kr provider now rnd)) = keyStore kr \<and>
   config (fst (GetNextKey kr provider now rnd)) = config kr \<and>
   GetUsage (keyStore (fst (GetNextKey kr provider now rnd))) p n
     = GetUsage (keyStore kr) p n"
proof (cases "GetProvider (config kr) provider")
  case (Inl e)
  then show ?thesis by (simp add: GetNextKey_def)
next
  case (Inr pc)
  obtain kr1 r where
    sr: "selectByStrategy kr provider (Strategy (Rotation pc)) (GetEnabledKeys pc) now rnd = (kr1, r)"
    by (cases "selectByStrategy kr provider (Strategy (Rotation pc)) (GetEnabledKeys pc) now rnd")
  have k1: "keyStore kr1 = keyStore kr" "config kr1 = config kr"
    using selectByStrategy_frame [of kr provider "Strategy (Rotation pc)" "GetEnabledKeys pc" now rnd] sr
    by simp_all
  have "keyStore (fst (GetNextKey kr provider now rnd)) = keyStore kr \<and>
        config (fst (GetNextKey kr provider now rnd)) = config kr"
    unfolding GetNextKey_def Let_def Inr sum.case sr
    by (simp add: k1 updateLastUsed_frame getFallbackKey_frame
          split: sum.split option.split prod.split)
  then show ?thesis by simp
qed

section \<open>RecordError and the health flag\<close>

lemma sint_of_nat_small:
  "n < 2 ^ 63 \<Longrightarrow> sint (word_of_nat n :: 64 word) = int n"
  by (simp add: signed_of_nat signed_take_bit_int_eq_self)

lemma RecordError_step:
  assumes "usage m p = Some pu" "pu k = Some u" "health m p = Some h" "h k = Some b"
  shows "\<exists>pu' u' h'. usage (fst (RecordError m p k msg)) p = Some pu' \<and> pu' k = Some u' \<and>
           ErrorCount u' = ErrorCount u + 1 \<and> LastError u' = msg \<and>
           health (fst (RecordError m p k msg)) p = Some h' \<and>
           h' k = Some (if 5 <s ErrorCount u + 1 then False else b)"
  using assms by (simp add: RecordError_def Let_def)

lemma recordErrors_state:
  assumes "usage m p = Some pu" "pu k = Some u" "ErrorCount u = 0"
      and "health m p = Some h" "h k = Some True"
  shows "length msgs < 2 ^ 63 \<Longrightarrow>
         \<exists>pu' u' h'. usage (recordErrors m p k msgs) p = Some pu' \<and> pu' k = Some u' \<and>
           ErrorCount u' = word_of_nat (length msgs) \<and>
           health (recordErrors m p k msgs) p = Some h' \<and>
           h' k = Some (length msgs \<le> 5)"
proof (induction msgs rule: rev_induct)
  case Nil
  then show ?case using assms by (simp add: recordErrors_def)
next
  case (snoc msg msgs)
  then have len: "length msgs < 2 ^ 63" and len': "Suc (length msgs) < 2 ^ 63" by simp_all
  from snoc.IH [OF len] obtain pu' u' h' where
    st: "usage (recordErrors m p k msgs) p = Some pu'" "pu' k = Some u'"
        "ErrorCount u' = word_of_nat (length msgs)"
        "health (recordErrors m p k msgs) p = Some h'" "h' k = Some (length msgs \<le> 5)"
    by blast
  have unfold: "recordErrors m p k (msgs @ [msg])
                  = fst (RecordError (recordErrors m p k msgs) p k msg)"
    by (simp add: recordErrors_def)
  have cnt: "ErrorCount u' + 1 = word_of_nat (Suc (length msgs))"
    by (simp add: st(3))
  have cmp: "(5 <s (word_of_nat (Suc (length msgs)) :: 64 word)) = (5 < Suc (length msgs))"
    using sint_of_nat_small [OF len'] by (simp add: word_sless_alt)
  from RecordError_step [OF st(1) st(2) st(4) st(5), of msg]
  show ?case unfolding unfold cnt cmp by auto
qed

text \<open>
  Claim C6. A stored key starts with error count 0 and health true. After a run of
  \<open>RecordError\<close> calls (fewer than \<open>2^63\<close>, so that the \<open>int64\<close> count does not wrap) the
  key is healthy exactly when the run had at most 5 calls: it is still healthy after 5
  and unhealthy after 6. A health check with a valid result after the run makes it
  healthy again.
\<close>

theorem RecordError_threshold:
  assumes "usage m p = Some pu" "pu k = Some u" "ErrorCount u = 0"
      and "health m p = Some h" "h k = Some True"
      and "length msgs < 2 ^ 63"
  shows "IsHealthy (recordErrors m p k msgs) p k = Inr (length msgs \<le> 5) \<and>
         IsHealthy (writeHealthResult (recordErrors m p k msgs) p k True probeMsg) p k = Inr True"
proof -
  from recordErrors_state [OF assms]
  show ?thesis
    by (auto simp: IsHealthy_def SetHealth_def writeHealthResult_def)
qed

theorem RecordError_threshold_witness:
  "IsHealthy (recordErrors twoKeyStore ''openai'' ''primary''
       [''e1'', ''e2'', ''e3'', ''e4'', ''e5'']) ''openai'' ''primary'' = Inr True \<and>
   IsHealthy (recordErrors twoKeyStore ''openai'' ''primary''
       [''e1'', ''e2'', ''e3'', ''e4'', ''e5'', ''e6'']) ''openai'' ''primary'' = Inr False \<and>
   IsHealthy (writeHealthResult
       (recordErrors twoKeyStore ''openai'' ''primary''
          [''e1'', ''e2'', ''e3'', ''e4'', ''e5'', ''e6''])
       ''openai'' ''primary'' True ''ok'') ''openai'' ''primary'' = Inr True"
proof -
  have u: "usage twoKeyStore ''openai''
             = Some [''primary'' \<mapsto> newUsage day1, ''secondary'' \<mapsto> newUsage day1]"
    by (simp add: twoKeyStore_maps)
  have k: "[''primary'' \<mapsto> newUsage day1, ''secondary'' \<mapsto> newUsage day1] ''primary''
             = Some (newUsage day1)"
    by simp
  have z: "ErrorCount (newUsage day1) = 0" by (simp add: newUsage_def)
  have h: "health twoKeyStore ''openai'' = Some [''primary'' \<mapsto> True, ''secondary'' \<mapsto> True]"
    by (simp add: twoKeyStore_maps)
  have b: "[''primary'' \<mapsto> True, ''secondary'' \<mapsto> True] ''primary'' = Some True" by simp
  have l5: "length [''e1'', ''e2'', ''e3'', ''e4'', ''e5''] < 2 ^ 63" by simp
  have l6: "length [''e1'', ''e2'', ''e3'', ''e4'', ''e5'', ''e6''] < 2 ^ 63" by simp
  from RecordError_threshold [OF u k z h b l5, of "''ok''"]
       RecordError_threshold [OF u k z h b l6, of "''ok''"]
  show ?thesis by simp
qed

section \<open>StoreKey and DeleteKey keep the three maps in step\<close>

lemma inStep_cases [consumes 1, case_names absent present]:
  assumes "inStep m"
  obtains (absent) "keys m provider = None" "usage m provider = None" "health m provider = None"
  | (present) pk pu ph where "keys m provider = Some pk" "usage m provider = Some pu"
      "health m provider = Some ph" "dom pk = dom pu" "dom pu = dom ph"
proof -
  from assms have
    "(keys m provider = None \<and> usage m provider = None \<and> health m provider = None) \<or>
     (\<exists>pk pu ph. keys m provider = Some pk \<and> usage m provider = Some pu \<and>
                  health m provider = Some ph \<and> dom pk = dom pu \<and> dom pu = dom ph)"
    by (simp add: inStep_def)
  then show thesis
    by (elim disjE exE conjE) (rule absent, assumption+, rule present, assumption+)
qed

lemma inStep_New: "inStep (NewMemoryKeyStore enc)"
  by (simp add: inStep_def NewMemoryKeyStore_def)

text \<open>\<open>StoreKey\<close> on a provider without maps, and on a provider with its three maps.\<close>

lemma StoreKey_absent:
  assumes "keys m provider = None"
  shows "StoreKey m provider keyName key now nonce =
     (case (case encryptor m of Some e \<Rightarrow> Encrypt e nonce key | None \<Rightarrow> Inr key) of
        Inl err \<Rightarrow>
          (m\<lparr>keys := (keys m)(provider \<mapsto> Map.empty),
             usage := (usage m)(provider \<mapsto> Map.empty),
             health := (health m)(provider \<mapsto> Map.empty)\<rparr>, Some (EncryptFailed err))
      | Inr storedKey \<Rightarrow>
          (m\<lparr>keys := (keys m)(provider \<mapsto> [keyName \<mapsto> storedKey]),
             usage := (usage m)(provider \<mapsto> [keyName \<mapsto> newUsage now]),
             health := (health m)(provider \<mapsto> [keyName \<mapsto> True])\<rparr>, None))"
  using assms by (simp add: StoreKey_def Let_def split: sum.split)

lemma StoreKey_present:
  assumes "keys m provider = Some pk" "usage m provider = Some pu" "health m provider = Some ph"
  shows "StoreKey m provider keyName key now nonce =
     (case (case encryptor m of Some e \<Rightarrow> Encrypt e nonce key | None \<Rightarrow> Inr key) of
        Inl err \<Rightarrow> (m, Some (EncryptFailed err))
      | Inr storedKey \<Rightarrow>
          (m\<lparr>keys := (keys m)(provider \<mapsto> pk(keyName \<mapsto> storedKey)),
             usage := (usage m)(provider \<mapsto> pu(keyName \<mapsto> newUsage now)),
             health := (health m)(provider \<mapsto> ph(keyName \<mapsto> True))\<rparr>, None))"
  using assms by (simp add: StoreKey_def Let_def split: sum.split)

lemma StoreKey_inStep:
  assumes "inStep m"
  shows "inStep (fst (StoreKey m provider keyName key now nonce))"
  using assms
proof (cases rule: inStep_cases [where provider = provider])
  case absent
  show ?thesis
    unfolding StoreKey_absent [OF absent(1)] inStep_def
    using assms [unfolded inStep_def]
    by (auto split: sum.split)
next
  case (present pk pu ph)
  show ?thesis
    unfolding StoreKey_present [OF present(1,2,3)] inStep_def
    using assms [unfolded inStep_def] present(4,5)
    by (auto split: sum.split)
qed

lemma DeleteKey_inStep:
  assumes "inStep m"
  shows "inStep (fst (DeleteKey m provider keyName))"
  using assms
proof (cases rule: inStep_cases [where provider = provider])
  case absent
  then show ?thesis using assms by (simp add: DeleteKey_def)
next
  case (present pk pu ph)
  have d: "fst (DeleteKey m provider keyName) =
             m\<lparr>keys := (keys m)(provider \<mapsto> pk(keyName := None)),
               usage := (usage m)(provider \<mapsto> pu(keyName := None)),
               health := (health m)(provider \<mapsto> ph(keyName := None))\<rparr>"
    using present(1,2,3) by (simp add: DeleteKey_def deleteEntry_def)
  show ?thesis
    unfolding d inStep_def
    using assms [unfolded inStep_def] present(4,5)
    by auto
qed

lemma applyOp_inStep: "inStep m \<Longrightarrow> inStep (applyOp m x)"
  by (cases x) (simp_all add: StoreKey_inStep DeleteKey_inStep)

lemma runOps_inStep: "inStep m \<Longrightarrow> inStep (runOps m ops)"
  unfolding runOps_def
  by (induction ops arbitrary: m) (simp_all add: applyOp_inStep)

lemma inStep_keyNames:
  assumes "inStep m"
  shows "keyNames (keys m) provider = keyNames (usage m) provider \<and>
         keyNames (usage m) provider = keyNames (health m) provider"
  using assms
proof (cases rule: inStep_cases [where provider = provider])
  case absent
  then show ?thesis by (simp add: keyNames_def)
next
  case (present pk pu ph)
  then show ?thesis by (simp add: keyNames_def)
qed

lemma StoreKey_entries:
  assumes "inStep m" and "StoreKey m provider keyName key now nonce = (m', None)"
  shows "keyName \<in> keyNames (keys m') provider \<and>
         GetUsage m' provider keyName = Inr (newUsage now) \<and>
         IsHealthy m' provider keyName = Inr True"
  using assms(1)
proof (cases rule: inStep_cases [where provider = provider])
  case absent
  from assms(2) show ?thesis
    unfolding StoreKey_absent [OF absent(1)]
    by (auto simp: keyNames_def GetUsage_def IsHealthy_def newUsage_def split: sum.splits)
next
  case (present pk pu ph)
  from assms(2) show ?thesis
    unfolding StoreKey_present [OF present(1,2,3)]
    by (auto simp: keyNames_def GetUsage_def IsHealthy_def newUsage_def split: sum.splits)
qed

lemma StoreKey_no_panic:
  assumes "inStep m"
  shows "snd (StoreKey m provider keyName key now nonce) \<noteq> Some PanicNilMap"
  using assms
proof (cases rule: inStep_cases [where provider = provider])
  case absent
  show ?thesis unfolding StoreKey_absent [OF absent(1)] by (simp split: sum.split)
next
  case (present pk pu ph)
  show ?thesis unfolding StoreKey_present [OF present(1,2,3)] by (simp split: sum.split)
qed

text \<open>
  Claim C9. After any run of store and delete operations on a new store, the key map,
  the usage map and the health map of every provider have the same key names. On such a
  store \<open>StoreKey\<close> never writes into a missing map; when it succeeds, the name has a
  key, a zeroed usage record stamped with the time of the call, and health true; after
  \<open>DeleteKey\<close> the name is in none of the three maps. Each operation is one step of
  the model, as the source runs it under the store's exclusive lock.
\<close>

theorem store_delete_maps_in_step:
  assumes "m = runOps (NewMemoryKeyStore enc) ops"
  shows "keyNames (keys m) provider = keyNames (usage m) provider \<and>
         keyNames (usage m) provider = keyNames (health m) provider \<and>
         snd (StoreKey m provider keyName key now nonce) \<noteq> Some PanicNilMap \<and>
         (snd (StoreKey m provider keyName key now nonce) = None \<longrightarrow>
            keyName \<in> keyNames (keys (fst (StoreKey m provider keyName key now nonce))) provider \<and>
            GetUsage (fst (StoreKey m provider keyName key now nonce)) provider keyName
              = Inr (newUsage now) \<and>
            IsHealthy (fst (StoreKey m provider keyName key now nonce)) provider keyName
              = Inr True) \<and>
         keyName \<notin> keyNames (keys (fst (DeleteKey m provider keyName))) provider \<and>
         keyName \<notin> keyNames (usage (fst (DeleteKey m provider keyName))) provider \<and>
         keyName \<notin> keyNames (health (fst (DeleteKey m provider keyName))) provider \<and>
         inStep (fst (StoreKey m provider keyName key now nonce)) \<and>
         inStep (fst (DeleteKey m provider keyName))"
proof -
  have inv: "inStep m"
    unfolding assms by (rule runOps_inStep [OF inStep_New])
  have names: "keyNames (keys m) provider = keyNames (usage m) provider \<and>
               keyNames (usage m) provider = keyNames (health m) provider"
    by (rule inStep_keyNames [OF inv])
  have stored: "snd (StoreKey m provider keyName key now nonce) = None \<longrightarrow>
            keyName \<in> keyNames (keys (fst (StoreKey m provider keyName key now nonce))) provider \<and>
            GetUsage (fst (StoreKey m provider keyName key now nonce)) provider keyName
              = Inr (newUsage now) \<and>
            IsHealthy (fst (StoreKey m provider keyName key now nonce)) provider keyName
              = Inr True"
  proof
    assume "snd (StoreKey m provider keyName key now nonce) = None"
    then have "StoreKey m provider keyName key now nonce
                 = (fst (StoreKey m provider keyName key now nonce), None)"
      by (metis prod.collapse)
    from StoreKey_entries [OF inv this] show
      "keyName \<in> keyNames (keys (fst (StoreKey m provider keyName key now nonce))) provider \<and>
       GetUsage (fst (StoreKey m provider keyName key now nonce)) provider keyName
         = Inr (newUsage now) \<and>
       IsHealthy (fst (StoreKey m provider keyName key now nonce)) provider keyName = Inr True" .
  qed
  have dk: "keyName \<notin> keyNames (keys (fst (DeleteKey m provider keyName))) provider"
    by (simp add: DeleteKey_def deleteEntry_def keyNames_def split: option.split)
  have dstep: "inStep (fst (DeleteKey m provider keyName))"
    by (rule DeleteKey_inStep [OF inv])
  have du: "keyName \<notin> keyNames (usage (fst (DeleteKey m provider keyName))) provider"
    using dk inStep_keyNames [OF dstep, of provider] by simp
  have dh: "keyName \<notin> keyNames (health (fst (DeleteKey m provider keyName))) provider"
    using du inStep_keyNames [OF dstep, of provider] by simp
  show ?thesis
    using names StoreKey_no_panic [OF inv] stored dk du dh StoreKey_inStep [OF inv] dstep
    by blast
qed

theorem store_delete_maps_in_step_witness:
  "keyNames (keys twoKeyStore) ''openai'' = keyNames (usage twoKeyStore) ''openai'' \<and>
   keyNames (usage twoKeyStore) ''openai'' = keyNames (health twoKeyStore) ''openai'' \<and>
   keyNames (keys twoKeyStore) ''openai'' = {''primary'', ''secondary''} \<and>
   GetUsage (fst (StoreKey twoKeyStore ''openai'' ''backup'' ''sk-3'' day2 None)) ''openai'' ''backup''
     = Inr (newUsage day2) \<and>
   IsHealthy (fst (StoreKey twoKeyStore ''openai'' ''backup'' ''sk-3'' day2 None)) ''openai'' ''backup''
     = Inr True \<and>
   ''primary'' \<notin> keyNames (health (fst (DeleteKey twoKeyStore ''openai'' ''primary''))) ''openai''"
proof -
  have m: "twoKeyStore = runOps (NewMemoryKeyStore None)
             [OpStore ''openai'' ''primary'' ''sk-1'' day1 None,
              OpStore ''openai'' ''secondary'' ''sk-2'' day1 None]"
    by (simp add: twoKeyStore_def)
  have ok: "snd (StoreKey twoKeyStore ''openai'' ''backup'' ''sk-3'' day2 None) = None"
    by (simp add: StoreKey_def twoKeyStore_maps)
  have names: "keyNames (keys twoKeyStore) ''openai'' = {''primary'', ''secondary''}"
    by (auto simp: keyNames_def twoKeyStore_maps)
  from store_delete_maps_in_step [OF m, of "''openai''" "''backup''" "''sk-3''" day2 None]
       store_delete_maps_in_step [OF m, of "''openai''" "''primary''" "''sk-1''" day2 None]
       ok names
  show ?thesis by blast
qed

section \<open>selectLeastUsed\<close>











section \<open>Round robin\<close>

lemma mset_rotate_eq: "mset (rotate n xs) = mset xs"
proof -
  have "mset (drop (n mod length xs) xs @ take (n mod length xs) xs)
          = mset (take (n mod length xs) xs @ drop (n mod length xs) xs)"
    by (simp only: mset_append add.commute)
  then show ?thesis by (simp add: rotate_drop_take del: mset_append)
qed

lemma selectRoundRobin_in_range:
  assumes "cursor kr provider < length ks"
  shows "selectRoundRobin kr provider ks =
           (kr\<lparr>rotationIdx :=
                 (rotationIdx kr)(provider \<mapsto> (cursor kr provider + 1) mod length ks)\<rparr>,
            Inr (Some (ks ! cursor kr provider), Name (ks ! cursor kr provider), None))"
  using assms by (auto simp: selectRoundRobin_def cursor_def Let_def split: option.splits)

text \<open>
  One call under round robin with the index in range, no unhealthy candidate and every
  candidate retrievable: the candidate at the index is returned and the index advances.
\<close>

lemma GetNextKey_round_robin_step:
  assumes prov: "Providers (config kr) provider = Some pc"
      and strat: "Strategy (Rotation pc) = RotationRoundRobin"
      and cur: "cursor kr provider < length (GetEnabledKeys pc)"
      and healthy: "HealthCheck (Rotation pc) \<longrightarrow>
                      (\<forall>k\<in>set (GetEnabledKeys pc).
                          IsHealthy (keyStore kr) provider (Name k) = Inr True)"
      and stored: "\<forall>k\<in>set (GetEnabledKeys pc).
                      \<exists>v. GetKey (keyStore kr) provider (Name k) = Inr v"
  shows "\<exists>kr' sel. GetNextKey kr provider now rnd = (kr', Inr sel) \<and>
           sKeyName sel = Name (GetEnabledKeys pc ! cursor kr provider) \<and>
           cursor kr' provider = (cursor kr provider + 1) mod length (GetEnabledKeys pc) \<and>
           config kr' = config kr \<and> keyStore kr' = keyStore kr"
proof -
  let ?ks = "GetEnabledKeys pc"
  let ?k = "?ks ! cursor kr provider"
  let ?kr1 = "kr\<lparr>rotationIdx :=
                   (rotationIdx kr)(provider \<mapsto> (cursor kr provider + 1) mod length ?ks)\<rparr>"
  have mem: "?k \<in> set ?ks" using cur by simp
  have ne: "?ks \<noteq> []" using cur by auto
  have sel: "selectByStrategy kr provider (Strategy (Rotation pc)) ?ks now rnd
               = (?kr1, Inr (Some ?k, Name ?k, None))"
    using selectRoundRobin_in_range [OF cur] by (simp add: selectByStrategy_def strat)
  have hc: "HealthCheck (Rotation pc) \<Longrightarrow>
              IsHealthy (keyStore kr) provider (Name ?k) = Inr True"
    using healthy mem by simp
  from stored mem obtain v where v: "GetKey (keyStore kr) provider (Name ?k) = Inr v"
    by auto
  have "\<exists>sel. GetNextKey kr provider now rnd
                 = (updateLastUsed ?kr1 provider (Name ?k) now, Inr sel) \<and>
              sKeyName sel = Name ?k"
    by (cases "HealthCheck (Rotation pc)")
       (simp_all add: GetNextKey_def GetProvider_def prov ne sel hc v Let_def)
  then show ?thesis
    by (auto simp: updateLastUsed_def cursor_def)
qed

lemma consecutiveCalls_round_robin:
  assumes prov: "Providers (config kr) provider = Some pc"
      and strat: "Strategy (Rotation pc) = RotationRoundRobin"
      and cur: "cursor kr provider < length (GetEnabledKeys pc)"
      and healthy: "HealthCheck (Rotation pc) \<longrightarrow>
                      (\<forall>k\<in>set (GetEnabledKeys pc).
                          IsHealthy (keyStore kr) provider (Name k) = Inr True)"
      and stored: "\<forall>k\<in>set (GetEnabledKeys pc).
                      \<exists>v. GetKey (keyStore kr) provider (Name k) = Inr v"
  shows "\<exists>kr' rs. consecutiveCalls kr provider ins = (kr', rs) \<and> length rs = length ins \<and>
           (\<forall>i<length ins. selectedName (rs ! i) =
               Some (Name (GetEnabledKeys pc !
                       ((cursor kr provider + i) mod length (GetEnabledKeys pc))))) \<and>
           cursor kr' provider
             = (cursor kr provider + length ins) mod length (GetEnabledKeys pc)"
  using assms
proof (induction ins arbitrary: kr)
  case Nil
  then show ?case by simp
next
  case (Cons a ins)
  obtain now rnd where a: "a = (now, rnd)" by (cases a)
  let ?n = "length (GetEnabledKeys pc)"
  from GetNextKey_round_robin_step [OF Cons.prems, of now rnd] obtain kr1 sel where
    s: "GetNextKey kr provider now rnd = (kr1, Inr sel)"
       "sKeyName sel = Name (GetEnabledKeys pc ! cursor kr provider)"
       "cursor kr1 provider = (cursor kr provider + 1) mod ?n"
       "config kr1 = config kr" "keyStore kr1 = keyStore kr"
    by blast
  have npos: "0 < ?n" using Cons.prems(3) by auto
  have p1: "Providers (config kr1) provider = Some pc" using Cons.prems(1) s(4) by simp
  have c1: "cursor kr1 provider < ?n" using s(3) npos by simp
  have h1: "HealthCheck (Rotation pc) \<longrightarrow>
              (\<forall>k\<in>set (GetEnabledKeys pc).
                  IsHealthy (keyStore kr1) provider (Name k) = Inr True)"
    using Cons.prems(4) s(5) by simp
  have g1: "\<forall>k\<in>set (GetEnabledKeys pc). \<exists>v. GetKey (keyStore kr1) provider (Name k) = Inr v"
    using Cons.prems(5) s(5) by simp
  from Cons.IH [OF p1 Cons.prems(2) c1 h1 g1] obtain kr2 rs where
    r: "consecutiveCalls kr1 provider ins = (kr2, rs)" "length rs = length ins"
       "\<forall>i<length ins. selectedName (rs ! i) =
           Some (Name (GetEnabledKeys pc ! ((cursor kr1 provider + i) mod ?n)))"
       "cursor kr2 provider = (cursor kr1 provider + length ins) mod ?n"
    by blast
  have cc: "consecutiveCalls kr provider (a # ins) = (kr2, Inr sel # rs)"
    by (simp add: a s(1) r(1))
  have idx: "\<And>i. (cursor kr1 provider + i) mod ?n = (cursor kr provider + Suc i) mod ?n"
    by (simp add: s(3) mod_add_left_eq)
  have nth: "\<forall>i<length (a # ins). selectedName ((Inr sel # rs) ! i) =
       Some (Name (GetEnabledKeys pc ! ((cursor kr provider + i) mod ?n)))"
  proof (intro allI impI)
    fix i assume i: "i < length (a # ins)"
    show "selectedName ((Inr sel # rs) ! i) =
       Some (Name (GetEnabledKeys pc ! ((cursor kr provider + i) mod ?n)))"
    proof (cases i)
      case 0
      then show ?thesis using s(2) Cons.prems(3) by (simp add: selectedName_def)
    next
      case (Suc j)
      then have "j < length ins" using i by simp
      then show ?thesis using r(3) Suc idx by simp
    qed
  qed
  have fin: "cursor kr2 provider = (cursor kr provider + length (a # ins)) mod ?n"
    using r(4) idx by simp
  show ?case using cc r(2) nth fin by simp
qed

text \<open>
  Claim C3. A provider with the round-robin strategy and \<open>N\<close> enabled keys, the rotation
  index below \<open>N\<close> (it is, from a new rotator on, while the configuration stays the
  same), health checking off or every enabled key healthy, every enabled key in the key
  store. Then \<open>N + 1\<close> consecutive calls of \<open>GetNextKey\<close> all succeed; the first \<open>N\<close>
  return the enabled keys in configuration order starting at the index, each key once,
  the last call returns the same key as the first, and after \<open>m\<close> calls the index is
  \<open>(index + m) mod N\<close>.
\<close>

theorem round_robin_cycle:
  assumes prov: "Providers (config kr) provider = Some pc"
      and strat: "Strategy (Rotation pc) = RotationRoundRobin"
      and cur: "cursor kr provider < length (GetEnabledKeys pc)"
      and healthy: "HealthCheck (Rotation pc) \<longrightarrow>
                      (\<forall>k\<in>set (GetEnabledKeys pc).
                          IsHealthy (keyStore kr) provider (Name k) = Inr True)"
      and stored: "\<forall>k\<in>set (GetEnabledKeys pc).
                      \<exists>v. GetKey (keyStore kr) provider (Name k) = Inr v"
      and len: "length ins = length (GetEnabledKeys pc) + 1"
  shows "map selectedName
             (take (length (GetEnabledKeys pc)) (snd (consecutiveCalls kr provider ins)))
           = map (\<lambda>k. Some (Name k)) (rotate (cursor kr provider) (GetEnabledKeys pc)) \<and>
         selectedName (snd (consecutiveCalls kr provider ins) ! length (GetEnabledKeys pc))
           = selectedName (snd (consecutiveCalls kr provider ins) ! 0) \<and>
         mset (map selectedName
                 (take (length (GetEnabledKeys pc)) (snd (consecutiveCalls kr provider ins))))
           = mset (map (\<lambda>k. Some (Name k)) (GetEnabledKeys pc)) \<and>
         (\<forall>m\<le>length ins.
             cursor (fst (consecutiveCalls kr provider (take m ins))) provider
               = (cursor kr provider + m) mod length (GetEnabledKeys pc))"
proof -
  let ?ks = "GetEnabledKeys pc"
  let ?n = "length ?ks"
  let ?c = "cursor kr provider"
  from consecutiveCalls_round_robin [OF prov strat cur healthy stored, of ins]
  obtain kr' rs where
    r: "consecutiveCalls kr provider ins = (kr', rs)" "length rs = length ins"
       "\<forall>i<length ins. selectedName (rs ! i) = Some (Name (?ks ! ((?c + i) mod ?n)))"
    by blast
  have npos: "0 < ?n" using cur by auto
  have A: "map selectedName (take ?n rs) = map (\<lambda>k. Some (Name k)) (rotate ?c ?ks)"
  proof (rule nth_equalityI)
    show "length (map selectedName (take ?n rs))
            = length (map (\<lambda>k. Some (Name k)) (rotate ?c ?ks))"
      using r(2) len by simp
  next
    fix i assume "i < length (map selectedName (take ?n rs))"
    then have i: "i < ?n" using r(2) len by simp
    then have "selectedName (rs ! i) = Some (Name (?ks ! ((?c + i) mod ?n)))"
      using r(3) len by simp
    then show "map selectedName (take ?n rs) ! i
                 = map (\<lambda>k. Some (Name k)) (rotate ?c ?ks) ! i"
      using i r(2) len by (simp add: nth_rotate)
  qed
  have B: "selectedName (rs ! ?n) = selectedName (rs ! 0)"
    using r(3) len npos by simp
  have C: "mset (map selectedName (take ?n rs)) = mset (map (\<lambda>k. Some (Name k)) ?ks)"
    unfolding A by (simp add: mset_rotate_eq)
  have F: "\<forall>m\<le>length ins.
             cursor (fst (consecutiveCalls kr provider (take m ins))) provider
               = (?c + m) mod ?n"
  proof (intro allI impI)
    fix m assume m: "m \<le> length ins"
    from consecutiveCalls_round_robin [OF prov strat cur healthy stored, of "take m ins"]
    obtain krm rsm where
      "consecutiveCalls kr provider (take m ins) = (krm, rsm)"
      "cursor krm provider = (?c + length (take m ins)) mod ?n"
      by blast
    then show "cursor (fst (consecutiveCalls kr provider (take m ins))) provider
                 = (?c + m) mod ?n"
      using m by (simp add: min_def)
  qed
  show ?thesis using A B C F by (simp add: r(1))
qed

lemma openai_enabled:
  "GetEnabledKeys (openaiProvider strategy) = [primaryKey, secondaryKey]"
  by (simp add: GetEnabledKeys_def openaiProvider_def primaryKey_def secondaryKey_def
        apiKey_def IsValid_def CanUse_def)

theorem round_robin_cycle_witness:
  "map selectedName
       (take 2 (snd (consecutiveCalls (NewKeyRotator (twoKeyConfig RotationRoundRobin) twoKeyStore)
                       ''openai'' [(day1, 0), (day1, 0), (day2, 0)])))
     = [Some ''primary'', Some ''secondary''] \<and>
   selectedName
       (snd (consecutiveCalls (NewKeyRotator (twoKeyConfig RotationRoundRobin) twoKeyStore)
               ''openai'' [(day1, 0), (day1, 0), (day2, 0)]) ! 2)
     = selectedName
       (snd (consecutiveCalls (NewKeyRotator (twoKeyConfig RotationRoundRobin) twoKeyStore)
               ''openai'' [(day1, 0), (day1, 0), (day2, 0)]) ! 0) \<and>
   cursor (fst (consecutiveCalls (NewKeyRotator (twoKeyConfig RotationRoundRobin) twoKeyStore)
                  ''openai'' (take 1 [(day1, 0), (day1, 0), (day2, 0)]))) ''openai'' = 1"
proof -
  let ?kr = "NewKeyRotator (twoKeyConfig RotationRoundRobin) twoKeyStore"
  let ?pc = "openaiProvider RotationRoundRobin"
  let ?ins = "[(day1, 0 :: nat), (day1, 0), (day2, 0)]"
  have names: "Name primaryKey = ''primary''" "Name secondaryKey = ''secondary''"
    by (simp_all add: primaryKey_def secondaryKey_def apiKey_def)
  have prov: "Providers (config ?kr) ''openai'' = Some ?pc"
    by (simp add: NewKeyRotator_def twoKeyConfig_def)
  have strat: "Strategy (Rotation ?pc) = RotationRoundRobin"
    by (simp add: openaiProvider_def)
  have c0: "cursor ?kr ''openai'' = 0"
    by (simp add: cursor_def NewKeyRotator_def)
  have cur: "cursor ?kr ''openai'' < length (GetEnabledKeys ?pc)"
    by (simp add: c0 openai_enabled)
  have healthy: "HealthCheck (Rotation ?pc) \<longrightarrow>
      (\<forall>k\<in>set (GetEnabledKeys ?pc). IsHealthy (keyStore ?kr) ''openai'' (Name k) = Inr True)"
    by (simp add: openai_enabled names NewKeyRotator_def IsHealthy_def twoKeyStore_maps)
  have stored: "\<forall>k\<in>set (GetEnabledKeys ?pc). \<exists>v. GetKey (keyStore ?kr) ''openai'' (Name k) = Inr v"
    by (simp add: openai_enabled names NewKeyRotator_def GetKey_def twoKeyStore_maps)
  have len: "length ?ins = length (GetEnabledKeys ?pc) + 1"
    by (simp add: openai_enabled)
  note cycle = round_robin_cycle [OF prov strat cur healthy stored len]
  have l1: "1 \<le> length ?ins" by simp
  from cycle [THEN conjunct2, THEN conjunct2, THEN conjunct2, rule_format, OF l1]
  have F: "cursor (fst (consecutiveCalls ?kr ''openai'' (take 1 ?ins))) ''openai'' = 1"
    by (simp add: openai_enabled c0 del: consecutiveCalls.simps)
  from cycle have
    "map selectedName
         (take (length (GetEnabledKeys ?pc)) (snd (consecutiveCalls ?kr ''openai'' ?ins)))
       = map (\<lambda>k. Some (Name k)) (rotate (cursor ?kr ''openai'') (GetEnabledKeys ?pc))"
    by (rule conjunct1)
  then have A: "map selectedName (take 2 (snd (consecutiveCalls ?kr ''openai'' ?ins)))
                  = [Some ''primary'', Some ''secondary'']"
    by (simp add: openai_enabled c0 names numeral_2_eq_2 del: consecutiveCalls.simps)
  from cycle have
    "selectedName (snd (consecutiveCalls ?kr ''openai'' ?ins) ! length (GetEnabledKeys ?pc))
       = selectedName (snd (consecutiveCalls ?kr ''openai'' ?ins) ! 0)"
    by (rule conjunct2 [THEN conjunct1])
  then have B: "selectedName (snd (consecutiveCalls ?kr ''openai'' ?ins) ! 2)
                  = selectedName (snd (consecutiveCalls ?kr ''openai'' ?ins) ! 0)"
    by (simp add: openai_enabled numeral_2_eq_2 del: consecutiveCalls.simps)
  from A B F show ?thesis by (simp only: simp_thms)
qed

section \<open>The rotation index stays in range\<close>

text \<open>
  While the configuration is the same, a call of \<open>GetNextKey\<close> leaves the rotation index
  of its provider below the number of enabled keys when it was below it before, whatever
  the strategy and whether or not the call falls back or fails. A new rotator starts
  at index 0.
\<close>

lemma selectRoundRobin_cursor:
  assumes "cursor kr provider < n" and "length ks \<le> n"
  shows "cursor (fst (selectRoundRobin kr provider ks)) provider < n"
proof (cases "ks = []")
  case True
  then show ?thesis using assms(1) by (simp add: selectRoundRobin_def)
next
  case False
  then have "(cursor kr provider + 1) mod length ks < length ks" by simp
  then have "(cursor kr provider + 1) mod length ks < n" using assms(2) by linarith
  then show ?thesis
    using False by (simp add: selectRoundRobin_def Let_def cursor_def)
qed

lemma updateLastUsed_cursor:
  "cursor (updateLastUsed kr provider keyName now) p = cursor kr p"
  by (simp add: updateLastUsed_def cursor_def)

lemma getFallbackKey_cursor:
  assumes "cursor kr provider < n" and "length ks \<le> n"
  shows "cursor (fst (getFallbackKey kr provider excludeKey ks now)) provider < n"
proof -
  let ?fb = "filter (\<lambda>key. Name key \<noteq> excludeKey \<and>
                       IsHealthy (keyStore kr) provider (Name key) = Inr True) ks"
  obtain kr1 r where sr: "selectRoundRobin kr provider ?fb = (kr1, r)"
    by (cases "selectRoundRobin kr provider ?fb")
  have "length ?fb \<le> n" using assms(2) length_filter_le [of _ ks] by (meson le_trans)
  from selectRoundRobin_cursor [OF assms(1) this] sr
  have c1: "cursor kr1 provider < n" by simp
  show ?thesis
    unfolding getFallbackKey_def Let_def sr
    using c1 assms(1)
    by (simp add: updateLastUsed_cursor split: sum.split option.split prod.split)
qed

lemma selectByStrategy_cursor:
  assumes "cursor kr provider < n" and "length ks \<le> n"
  shows "cursor (fst (selectByStrategy kr provider strategy ks now rnd)) provider < n"
  using assms by (simp add: selectByStrategy_def selectRoundRobin_cursor)

lemma GetNextKey_cursor_in_range:
  assumes "Providers (config kr) provider = Some pc"
      and "cursor kr provider < length (GetEnabledKeys pc)"
  shows "cursor (fst (GetNextKey kr provider now rnd)) provider < length (GetEnabledKeys pc)"
proof -
  let ?ks = "GetEnabledKeys pc"
  obtain kr1 r where
    sr: "selectByStrategy kr provider (Strategy (Rotation pc)) ?ks now rnd = (kr1, r)"
    by (cases "selectByStrategy kr provider (Strategy (Rotation pc)) ?ks now rnd")
  from selectByStrategy_cursor [OF assms(2) order_refl, of "Strategy (Rotation pc)" now rnd] sr
  have c1: "cursor kr1 provider < length ?ks" by simp
  have fb: "\<And>ex. cursor (fst (getFallbackKey kr1 provider ex ?ks now)) provider < length ?ks"
    by (rule getFallbackKey_cursor [OF c1 order_refl])
  have ne: "?ks \<noteq> []" using assms(2) by auto
  show ?thesis
    unfolding GetNextKey_def Let_def
    using c1 fb
    by (simp add: GetProvider_def assms(1) sr ne updateLastUsed_cursor
          split: sum.split option.split prod.split)
qed

lemma NewKeyRotator_cursor: "cursor (NewKeyRotator cfg ks) provider = 0"
  by (simp add: NewKeyRotator_def cursor_def)

section \<open>What selectCostOptimized guarantees\<close>

text \<open>
  \<open>selectCostOptimized\<close> never returns a candidate that is over budget; on a list that is
  not empty it fails with \<open>AllKeysOverCostLimit\<close> exactly when every candidate is over
  budget; and when every candidate has a usage record with a daily cost that is not
  negative, it returns a candidate of least daily cost among those not over budget.
\<close>

lemma costOptimizedLoop_Some:
  "\<exists>k n c. costOptimizedLoop store p ks (Some b, nm, lc) = (Some k, n, c)"
proof (induction ks arbitrary: b nm lc)
  case Nil
  then show ?case by simp
next
  case (Cons key rest)
  show ?case
    by (cases "GetUsage store p (Name key)") (simp_all add: Cons.IH)
qed

lemma costOptimizedLoop_None_iff:
  "fst (costOptimizedLoop store p ks (None, nm, - 1)) = None
     \<longleftrightarrow> (\<forall>k\<in>set ks. overBudget store p k)"
proof (induction ks)
  case Nil
  then show ?case by simp
next
  case (Cons key rest)
  show ?case
  proof (cases "GetUsage store p (Name key)")
    case (Inl e)
    from costOptimizedLoop_Some [of store p rest key "Name key" "- 1"]
    show ?thesis using Inl by (auto simp: overBudget_def)
  next
    case (Inr u)
    show ?thesis
    proof (cases "CostLimit key \<le> 0 \<or> DailyCost u < CostLimit key")
      case True
      from costOptimizedLoop_Some [of store p rest key "Name key" "DailyCost u"]
      show ?thesis using Inr True by (auto simp: overBudget_def)
    next
      case False
      then show ?thesis using Inr Cons.IH by (auto simp: overBudget_def)
    qed
  qed
qed

lemma selectCostOptimized_fails_iff:
  "selectCostOptimized store p ks = (None, [], Some AllKeysOverCostLimit)
     \<longleftrightarrow> ks \<noteq> [] \<and> (\<forall>k\<in>set ks. overBudget store p k)"
proof (cases "ks = []")
  case True
  then show ?thesis by (simp add: selectCostOptimized_def)
next
  case False
  obtain bk bn lc where r: "costOptimizedLoop store p ks (None, [], - 1) = (bk, bn, lc)"
    by (cases "costOptimizedLoop store p ks (None, [], - 1)")
  from costOptimizedLoop_None_iff [of store p ks "[]"] r
  have "bk = None \<longleftrightarrow> (\<forall>k\<in>set ks. overBudget store p k)" by simp
  then show ?thesis using False r by (auto simp: selectCostOptimized_def)
qed

lemma costOptimizedLoop_under_limit:
  assumes "best = None \<or> (\<exists>b. best = Some b \<and> \<not> overBudget store p b)"
      and "costOptimizedLoop store p ks (best, nm, lc) = (Some k, n, c)"
  shows "\<not> overBudget store p k"
  using assms
proof (induction ks arbitrary: best nm lc)
  case Nil
  then show ?case by auto
next
  case (Cons key rest)
  show ?case
  proof (cases "GetUsage store p (Name key)")
    case (Inl e)
    have "\<not> overBudget store p key" using Inl by (simp add: overBudget_def)
    then show ?thesis
      using Cons.IH [of "Some key" "Name key" lc] Cons.prems(2) Inl by simp
  next
    case (Inr u)
    show ?thesis
    proof (cases "(lc = - 1 \<or> DailyCost u < lc) \<and> (CostLimit key \<le> 0 \<or> DailyCost u < CostLimit key)")
      case True
      then have "\<not> overBudget store p key" using Inr by (auto simp: overBudget_def)
      then show ?thesis
        using Cons.IH [of "Some key" "Name key" "DailyCost u"] Cons.prems(2) Inr True by simp
    next
      case False
      then have "costOptimizedLoop store p (key # rest) (best, nm, lc)
                   = costOptimizedLoop store p rest (best, nm, lc)"
        using Inr by auto
      then show ?thesis
        using Cons.IH [OF Cons.prems(1), of nm lc] Cons.prems(2) by simp
    qed
  qed
qed

lemma selectCostOptimized_under_limit:
  assumes "selectCostOptimized store p ks = (Some k, n, err)"
  shows "\<not> overBudget store p k"
proof -
  obtain bk bn lc where r: "costOptimizedLoop store p ks (None, [], - 1) = (bk, bn, lc)"
    by (cases "costOptimizedLoop store p ks (None, [], - 1)")
  from assms r have "bk = Some k"
    by (auto simp: selectCostOptimized_def split: if_splits)
  with r costOptimizedLoop_under_limit [of None store p ks "[]" "- 1" k bn lc]
  show ?thesis by simp
qed


lemma costOptimizedLoop_lowest:
  assumes "\<forall>k\<in>set ks. \<exists>u. GetUsage store p (Name k) = Inr u \<and> 0 \<le> DailyCost u"
      and "GetUsage store p (Name b) = Inr ub" and "0 \<le> DailyCost ub"
  shows "\<exists>k u. costOptimizedLoop store p ks (Some b, Name b, DailyCost ub)
                 = (Some k, Name k, DailyCost u) \<and>
               k \<in> set (b # ks) \<and> GetUsage store p (Name k) = Inr u \<and>
               DailyCost u \<le> DailyCost ub \<and>
               (\<forall>k'\<in>set ks. \<forall>u'. GetUsage store p (Name k') = Inr u' \<longrightarrow>
                   \<not> overBudget store p k' \<longrightarrow> DailyCost u \<le> DailyCost u')"
  using assms
proof (induction ks arbitrary: b ub)
  case Nil
  then show ?case by simp
next
  case (Cons key rest)
  from Cons.prems(1) obtain uk where
    uk: "GetUsage store p (Name key) = Inr uk" "0 \<le> DailyCost uk"
    by auto
  from Cons.prems(1) have
    rest: "\<forall>k\<in>set rest. \<exists>u. GetUsage store p (Name k) = Inr u \<and> 0 \<le> DailyCost u"
    by simp
  have ns: "DailyCost ub \<noteq> - 1" using Cons.prems(3) by simp
  show ?case
  proof (cases "DailyCost uk < DailyCost ub \<and> \<not> overBudget store p key")
    case True
    then have step:
      "costOptimizedLoop store p (key # rest) (Some b, Name b, DailyCost ub)
         = costOptimizedLoop store p rest (Some key, Name key, DailyCost uk)"
      using uk(1) ns by (auto simp: overBudget_def)
    from Cons.IH [OF rest uk] obtain k u where
      r: "costOptimizedLoop store p rest (Some key, Name key, DailyCost uk)
            = (Some k, Name k, DailyCost u)"
         "k \<in> set (key # rest)" "GetUsage store p (Name k) = Inr u"
         "DailyCost u \<le> DailyCost uk"
         "\<forall>k'\<in>set rest. \<forall>u'. GetUsage store p (Name k') = Inr u' \<longrightarrow>
             \<not> overBudget store p k' \<longrightarrow> DailyCost u \<le> DailyCost u'"
      by blast
    show ?thesis
      unfolding step r(1) using r(2,3,4,5) True uk(1) by auto
  next
    case False
    then have step:
      "costOptimizedLoop store p (key # rest) (Some b, Name b, DailyCost ub)
         = costOptimizedLoop store p rest (Some b, Name b, DailyCost ub)"
      using uk(1) ns by (auto simp: overBudget_def)
    from Cons.IH [OF rest Cons.prems(2,3)] obtain k u where
      r: "costOptimizedLoop store p rest (Some b, Name b, DailyCost ub)
            = (Some k, Name k, DailyCost u)"
         "k \<in> set (b # rest)" "GetUsage store p (Name k) = Inr u"
         "DailyCost u \<le> DailyCost ub"
         "\<forall>k'\<in>set rest. \<forall>u'. GetUsage store p (Name k') = Inr u' \<longrightarrow>
             \<not> overBudget store p k' \<longrightarrow> DailyCost u \<le> DailyCost u'"
      by blast
    show ?thesis
      unfolding step r(1) using r(2,3,4,5) False uk(1) by auto
  qed
qed

lemma costOptimizedLoop_lowest_from_start:
  assumes "\<forall>k\<in>set ks. \<exists>u. GetUsage store p (Name k) = Inr u \<and> 0 \<le> DailyCost u"
      and "\<exists>k\<in>set ks. \<not> overBudget store p k"
  shows "\<exists>k u. costOptimizedLoop store p ks (None, nm, - 1) = (Some k, Name k, DailyCost u) \<and>
               k \<in> set ks \<and> GetUsage store p (Name k) = Inr u \<and> \<not> overBudget store p k \<and>
               (\<forall>k'\<in>set ks. \<forall>u'. GetUsage store p (Name k') = Inr u' \<longrightarrow>
                   \<not> overBudget store p k' \<longrightarrow> DailyCost u \<le> DailyCost u')"
  using assms
proof (induction ks)
  case Nil
  then show ?case by simp
next
  case (Cons key rest)
  from Cons.prems(1) obtain uk where
    uk: "GetUsage store p (Name key) = Inr uk" "0 \<le> DailyCost uk"
    by auto
  from Cons.prems(1) have
    rest: "\<forall>k\<in>set rest. \<exists>u. GetUsage store p (Name k) = Inr u \<and> 0 \<le> DailyCost u"
    by simp
  show ?case
  proof (cases "overBudget store p key")
    case True
    then have step: "costOptimizedLoop store p (key # rest) (None, nm, - 1)
                       = costOptimizedLoop store p rest (None, nm, - 1)"
      using uk(1) by (auto simp: overBudget_def)
    from True Cons.prems(2) have "\<exists>k\<in>set rest. \<not> overBudget store p k" by auto
    from Cons.IH [OF rest this] show ?thesis
      unfolding step using True by auto
  next
    case False
    then have step: "costOptimizedLoop store p (key # rest) (None, nm, - 1)
                       = costOptimizedLoop store p rest (Some key, Name key, DailyCost uk)"
      using uk(1) by (auto simp: overBudget_def)
    from costOptimizedLoop_lowest [OF rest uk] obtain k u where
      r: "costOptimizedLoop store p rest (Some key, Name key, DailyCost uk)
            = (Some k, Name k, DailyCost u)"
         "k \<in> set (key # rest)" "GetUsage store p (Name k) = Inr u"
         "DailyCost u \<le> DailyCost uk"
         "\<forall>k'\<in>set rest. \<forall>u'. GetUsage store p (Name k') = Inr u' \<longrightarrow>
             \<not> overBudget store p k' \<longrightarrow> DailyCost u \<le> DailyCost u'"
      by blast
    have nb: "\<not> overBudget store p k"
      using costOptimizedLoop_under_limit [of "Some key" store p rest "Name key" "DailyCost uk" k "Name k" "DailyCost u"]
            False r(1) by simp
    show ?thesis
      unfolding step r(1) using r(2,3,4,5) nb uk(1) by auto
  qed
qed

lemma selectCostOptimized_lowest:
  assumes "\<forall>k\<in>set ks. \<exists>u. GetUsage store p (Name k) = Inr u \<and> 0 \<le> DailyCost u"
      and "\<exists>k\<in>set ks. \<not> overBudget store p k"
  shows "\<exists>k\<in>set ks. \<exists>u. selectCostOptimized store p ks = (Some k, Name k, None) \<and>
           GetUsage store p (Name k) = Inr u \<and> \<not> overBudget store p k \<and>
           (\<forall>k'\<in>set ks. \<forall>u'. GetUsage store p (Name k') = Inr u' \<longrightarrow>
               \<not> overBudget store p k' \<longrightarrow> DailyCost u \<le> DailyCost u')"
proof -
  from assms(2) have ne: "ks \<noteq> []" by auto
  from costOptimizedLoop_lowest_from_start [OF assms, of "[]"] obtain k u where
    r: "costOptimizedLoop store p ks (None, [], - 1) = (Some k, Name k, DailyCost u)"
       "k \<in> set ks" "GetUsage store p (Name k) = Inr u" "\<not> overBudget store p k"
       "\<forall>k'\<in>set ks. \<forall>u'. GetUsage store p (Name k') = Inr u' \<longrightarrow>
           \<not> overBudget store p k' \<longrightarrow> DailyCost u \<le> DailyCost u'"
    by blast
  have "selectCostOptimized store p ks = (Some k, Name k, None)"
    using ne r(1) by (simp add: selectCostOptimized_def)
  with r(2,3,4,5) show ?thesis by blast
qed

section \<open>The candidate list and the fallback\<close>

text \<open>
  The candidates of \<open>GetNextKey\<close> are the configured keys that are enabled, have a key
  and a name, and whose own \<open>CostUsed\<close> field is under a positive cost limit; the call
  fails with \<open>NoEnabledKeys\<close> exactly when the provider is configured and has no such
  key. The fallback panics exactly when there are survivors and the rotation index is
  not below their number; with the index below it, the survivor at the index is
  returned under the round-robin strategy.
\<close>

lemma GetEnabledKeys_set:
  "k \<in> set (GetEnabledKeys pc) \<longleftrightarrow>
     k \<in> set (APIKeys pc) \<and> Enabled k \<and> Key k \<noteq> [] \<and> Name k \<noteq> [] \<and>
     \<not> (CostLimit k > 0 \<and> kCostUsed k \<ge> CostLimit k)"
  by (auto simp: GetEnabledKeys_def IsValid_def CanUse_def)

lemma selectRoundRobin_error:
  "snd (selectRoundRobin kr provider ks) = Inl e \<Longrightarrow> \<exists>i n. e = PanicIndexOutOfRange i n"
  by (auto simp: selectRoundRobin_def Let_def split: if_splits)

lemma selectByStrategy_error:
  "snd (selectByStrategy kr provider strategy ks now rnd) = Inl e
     \<Longrightarrow> \<exists>i n. e = PanicIndexOutOfRange i n"
  by (auto simp: selectByStrategy_def dest: selectRoundRobin_error split: if_splits)

lemma getFallbackKey_error:
  "snd (getFallbackKey kr provider excludeKey ks now) \<noteq> Inl (NoEnabledKeys q)"
proof -
  let ?fb = "filter (\<lambda>key. Name key \<noteq> excludeKey \<and>
                       IsHealthy (keyStore kr) provider (Name key) = Inr True) ks"
  obtain kr1 r where sr: "selectRoundRobin kr provider ?fb = (kr1, r)"
    by (cases "selectRoundRobin kr provider ?fb")
  have "r \<noteq> Inl (NoEnabledKeys q)"
    using selectRoundRobin_error [of kr provider ?fb "NoEnabledKeys q"] sr by auto
  then show ?thesis
    unfolding getFallbackKey_def Let_def sr
    by (auto split: sum.split option.split prod.split)
qed

lemma GetNextKey_no_enabled_keys_iff:
  "snd (GetNextKey kr provider now rnd) = Inl (NoEnabledKeys provider)
     \<longleftrightarrow> (\<exists>pc. Providers (config kr) provider = Some pc \<and> GetEnabledKeys pc = [])"
proof (cases "Providers (config kr) provider")
  case None
  then show ?thesis by (simp add: GetNextKey_def GetProvider_def)
next
  case (Some pc)
  show ?thesis
  proof (cases "GetEnabledKeys pc = []")
    case True
    then show ?thesis using Some by (simp add: GetNextKey_def GetProvider_def)
  next
    case False
    obtain kr1 r where
      sr: "selectByStrategy kr provider (Strategy (Rotation pc)) (GetEnabledKeys pc) now rnd = (kr1, r)"
      by (cases "selectByStrategy kr provider (Strategy (Rotation pc)) (GetEnabledKeys pc) now rnd")
    have r: "r \<noteq> Inl (NoEnabledKeys provider)"
      using selectByStrategy_error [of kr provider "Strategy (Rotation pc)" "GetEnabledKeys pc" now rnd
              "NoEnabledKeys provider"] sr
      by auto
    have "snd (GetNextKey kr provider now rnd) \<noteq> Inl (NoEnabledKeys provider)"
      unfolding GetNextKey_def Let_def
      using r
      by (auto simp: GetProvider_def Some False sr getFallbackKey_error
            split: sum.split option.split prod.split)
    then show ?thesis using Some False by simp
  qed
qed

lemma getFallbackKey_out_of_range:
  assumes "survivors = filter (\<lambda>key. Name key \<noteq> excludeKey \<and>
                       IsHealthy (keyStore kr) provider (Name key) = Inr True) ks"
      and "survivors \<noteq> []" and "length survivors \<le> cursor kr provider"
  shows "snd (getFallbackKey kr provider excludeKey ks now)
           = Inl (PanicIndexOutOfRange (cursor kr provider) (length survivors))"
  using assms(2,3) unfolding getFallbackKey_def Let_def assms(1) [symmetric]
  by (auto simp: selectRoundRobin_def cursor_def Let_def split: option.splits)

lemma getFallbackKey_in_range:
  assumes "survivors = filter (\<lambda>key. Name key \<noteq> excludeKey \<and>
                       IsHealthy (keyStore kr) provider (Name key) = Inr True) ks"
      and "cursor kr provider < length survivors"
      and "GetKey (keyStore kr) provider (Name (survivors ! cursor kr provider)) = Inr v"
  shows "\<exists>sel. snd (getFallbackKey kr provider excludeKey ks now) = Inr sel \<and>
           sKeyName sel = Name (survivors ! cursor kr provider) \<and> sKey sel = v \<and>
           sStrategy sel = RotationRoundRobin"
proof -
  have ne: "survivors \<noteq> []" using assms(2) by auto
  show ?thesis
    unfolding getFallbackKey_def Let_def assms(1) [symmetric]
    using ne assms(3)
    by (simp add: selectRoundRobin_in_range [OF assms(2)])
qed

section \<open>Encrypt and Decrypt over the library\<close>

text \<open>
  What the repository's own code adds to the library: \<open>Decrypt\<close> rejects an input whose
  decoded bytes are fewer than the nonce size without calling \<open>Open\<close>; it fails whenever
  base64 or \<open>Open\<close> rejects the input; and it returns the plaintext of \<open>Encrypt\<close> when
  base64 decodes what it encoded and \<open>Open\<close> opens what \<open>Seal\<close> sealed under the same key
  and nonce. That \<open>Open\<close> rejects every altered input is a property of AES-GCM itself.
\<close>

lemma Decrypt_too_short:
  assumes "b64Decode (crypto e) c = Some d" and "length d < gcmNonceSize (crypto e)"
  shows "Decrypt e c = (if newGCM (crypto e) (encKey e) then Inl CiphertextTooShort
                        else Inl NewCipherFailed)"
  using assms by (simp add: Decrypt_def)

lemma Decrypt_rejected:
  assumes "b64Decode (crypto e) c = None \<or>
           (\<exists>d. b64Decode (crypto e) c = Some d \<and>
                gcmOpen (crypto e) (encKey e)
                  (take (gcmNonceSize (crypto e)) d) (drop (gcmNonceSize (crypto e)) d) = None)"
  shows "\<exists>err. Decrypt e c = Inl err"
  using assms by (auto simp: Decrypt_def)

lemma Decrypt_Encrypt:
  assumes "newGCM (crypto e) (encKey e)"
      and "length n = gcmNonceSize (crypto e)"
      and "b64Decode (crypto e) (b64Encode (crypto e) (n @ gcmSeal (crypto e) (encKey e) n x))
             = Some (n @ gcmSeal (crypto e) (encKey e) n x)"
      and "gcmOpen (crypto e) (encKey e) n (gcmSeal (crypto e) (encKey e) n x) = Some x"
  shows "\<exists>c. Encrypt e (Some n) x = Inr c \<and> Decrypt e c = Inr x"
  using assms by (simp add: Encrypt_def Decrypt_def)

end
